theory Spec2Isabelle
  imports Complex_Main "HOL-Library.Word" "HOL-Library.Signed_Division" "HOL-Library.Log_Nat"
begin

unbundle bit_operations_syntax

section \<open>MobileRT utilities (Utils.cpp)\<close>

subsection \<open>Machine integers and failures\<close>

text \<open>
  \<open>::std::int32_t\<close> and \<open>::std::uint32_t\<close> are 32-bit words; \<open>sint\<close> reads the
  signed value, \<open>unat\<close> the unsigned one, and the casts between the two types keep the
  bits. Every operation of the source whose behaviour C++ leaves undefined is a failure of
  the model, so that a result \<open>Inr r\<close> always is a value the program really computes.
  \<open>RuntimeError\<close> is the \<open>::std::runtime_error\<close> thrown by \<open>checkSystemError\<close>.
\<close>

type_synonym int32_t = "32 word"
type_synonym uint32_t = "32 word"

datatype failure =
    DivisionByZero
  | SignedOverflow
  | ConversionOutOfRange
  | RuntimeError string

definition bind :: "failure + 'a \<Rightarrow> ('a \<Rightarrow> failure + 'b) \<Rightarrow> failure + 'b" where
  "bind m f = (case m of Inl e \<Rightarrow> Inl e | Inr v \<Rightarrow> f v)"

definition INT32_MIN :: int32_t where
  "INT32_MIN = - 2147483648"

text \<open>
  The built-in \<open>%\<close> on \<open>int32_t\<close>: the remainder of the division that truncates towards
  zero (it has the sign of the dividend). It is undefined for a zero divisor, and for
  \<open>INT32_MIN % -1\<close>, whose quotient is not representable.
\<close>

definition int32_rem :: "int32_t \<Rightarrow> int32_t \<Rightarrow> failure + int32_t" where
  "int32_rem a b =
     (if b = 0 then Inl DivisionByZero
      else if a = INT32_MIN \<and> b = - 1 then Inl SignedOverflow
      else Inr (word_of_int (sint a smod sint b)))"

text \<open>The built-in \<open>-\<close> on \<open>int32_t\<close>: undefined when the difference is not representable.\<close>

definition int32_sub :: "int32_t \<Rightarrow> int32_t \<Rightarrow> failure + int32_t" where
  "int32_sub a b =
     (if - 2147483648 \<le> sint a - sint b \<and> sint a - sint b \<le> 2147483647
      then Inr (a - b) else Inl SignedOverflow)"

text \<open>The built-in \<open>/\<close> on \<open>uint32_t\<close>; \<open>+\<close>, \<open>-\<close> and \<open>*\<close> on \<open>uint32_t\<close> wrap around.\<close>

definition uint32_div :: "uint32_t \<Rightarrow> uint32_t \<Rightarrow> failure + uint32_t" where
  "uint32_div a b = (if b = 0 then Inl DivisionByZero else Inr (a div b))"

subsection \<open>Single-precision floating point\<close>

text \<open>
  A \<open>float\<close> is an IEEE 754 binary32 value: a finite real on the binary32 grid, an
  infinity or a NaN. Each arithmetic operation computes the exact real result and rounds
  it to the nearest grid point, ties to the even significand (\<open>fl32\<close>); a rounded result
  beyond \<open>FLT_MAX\<close> is an infinity. This is the arithmetic of a platform that evaluates
  \<open>float\<close> expressions in binary32 under the default rounding mode and converts integers
  to \<open>float\<close> the same way. The model does not track the sign of zero (dividing a nonzero
  value by zero takes the sign of the dividend alone), it has one NaN, and an expression
  \<open>a * b + c\<close> rounds twice, as written in the source.

  \<open>rne\<close> rounds a real to the nearest integer, ties to even; \<open>ilog2 x\<close> is the binary
  exponent \<open>\<lfloor>log\<^sub>2 x\<rfloor>\<close> of a positive \<open>x\<close>; \<open>binade x\<close> is the exponent of \<open>x\<close>, held
  at \<open>-126\<close> in the subnormal range; \<open>ulp x\<close> is the grid spacing at \<open>x\<close>, 24 significant
  bits.
\<close>

definition rne :: "real \<Rightarrow> int" where
  "rne x = (let f = \<lfloor>x\<rfloor>; d = x - of_int f in
      if d < 1 / 2 then f else if 1 / 2 < d then f + 1 else if even f then f else f + 1)"

definition ilog2 :: "real \<Rightarrow> int" where
  "ilog2 x = (if 1 \<le> x then bitlen \<lfloor>x\<rfloor> - 1 else - bitlen (\<lceil>1 / x\<rceil> - 1))"

definition binade :: "real \<Rightarrow> int" where
  "binade x = max (ilog2 \<bar>x\<bar>) (- 126)"

definition ulp :: "real \<Rightarrow> real" where
  "ulp x = 2 powi (binade x - 23)"

definition fl32 :: "real \<Rightarrow> real" where
  "fl32 x = (if x = 0 then 0 else of_int (rne (x / ulp x)) * ulp x)"

datatype float = Finite real | PInf | NInf | NaN

definition FLT_MAX :: real where
  "FLT_MAX = 340282346638528859811704183484516925440"

text \<open>The finite values of the type: the reals on the grid, up to \<open>FLT_MAX\<close>.\<close>

definition is_float32 :: "real \<Rightarrow> bool" where
  "is_float32 x = (fl32 x = x \<and> \<bar>x\<bar> \<le> FLT_MAX)"

definition round_float :: "real \<Rightarrow> float" where
  "round_float x = (let y = fl32 x in
     if FLT_MAX < y then PInf else if y < - FLT_MAX then NInf else Finite y)"

fun fneg :: "float \<Rightarrow> float" where
  "fneg (Finite x) = Finite (- x)"
| "fneg PInf = NInf"
| "fneg NInf = PInf"
| "fneg NaN = NaN"

fun fabs :: "float \<Rightarrow> float" where
  "fabs (Finite x) = Finite \<bar>x\<bar>"
| "fabs PInf = PInf"
| "fabs NInf = PInf"
| "fabs NaN = NaN"

fun fadd :: "float \<Rightarrow> float \<Rightarrow> float" where
  "fadd (Finite x) (Finite y) = round_float (x + y)"
| "fadd NaN _ = NaN"
| "fadd _ NaN = NaN"
| "fadd PInf NInf = NaN"
| "fadd NInf PInf = NaN"
| "fadd PInf _ = PInf"
| "fadd NInf _ = NInf"
| "fadd _ PInf = PInf"
| "fadd _ NInf = NInf"

definition fsub :: "float \<Rightarrow> float \<Rightarrow> float" where
  "fsub a b = fadd a (fneg b)"

text \<open>An infinity times a finite factor \<open>s\<close>: NaN for zero, else the sign rule.\<close>

fun fsgn_mul :: "real \<Rightarrow> float \<Rightarrow> float" where
  "fsgn_mul s PInf = (if s = 0 then NaN else if 0 < s then PInf else NInf)"
| "fsgn_mul s NInf = (if s = 0 then NaN else if 0 < s then NInf else PInf)"
| "fsgn_mul s a = a"

fun fmul :: "float \<Rightarrow> float \<Rightarrow> float" where
  "fmul (Finite x) (Finite y) = round_float (x * y)"
| "fmul NaN _ = NaN"
| "fmul _ NaN = NaN"
| "fmul (Finite x) b = fsgn_mul x b"
| "fmul a (Finite y) = fsgn_mul y a"
| "fmul PInf b = b"
| "fmul NInf b = fneg b"

fun fdiv :: "float \<Rightarrow> float \<Rightarrow> float" where
  "fdiv (Finite x) (Finite y) =
     (if y = 0 then (if x = 0 then NaN else if 0 < x then PInf else NInf)
      else round_float (x / y))"
| "fdiv NaN _ = NaN"
| "fdiv _ NaN = NaN"
| "fdiv (Finite x) _ = Finite 0"
| "fdiv PInf (Finite y) = (if 0 \<le> y then PInf else NInf)"
| "fdiv NInf (Finite y) = (if 0 \<le> y then NInf else PInf)"
| "fdiv _ _ = NaN"

fun fsqrt :: "float \<Rightarrow> float" where
  "fsqrt (Finite x) = (if x < 0 then NaN else round_float (sqrt x))"
| "fsqrt PInf = PInf"
| "fsqrt NInf = NaN"
| "fsqrt NaN = NaN"

text \<open>The comparisons \<open><\<close> and \<open><=\<close>: false as soon as an operand is a NaN.\<close>

fun flt :: "float \<Rightarrow> float \<Rightarrow> bool" where
  "flt (Finite x) (Finite y) = (x < y)"
| "flt NaN _ = False"
| "flt _ NaN = False"
| "flt NInf b = (b \<noteq> NInf)"
| "flt a PInf = (a \<noteq> PInf)"
| "flt _ _ = False"

fun fle :: "float \<Rightarrow> float \<Rightarrow> bool" where
  "fle (Finite x) (Finite y) = (x \<le> y)"
| "fle NaN _ = False"
| "fle _ NaN = False"
| "fle NInf _ = True"
| "fle _ PInf = True"
| "fle _ _ = False"

text \<open>
  \<open>static_cast<float>\<close> of an unsigned integer rounds it to the grid.
  \<open>static_cast<::std::uint32_t>\<close> of a float drops the fraction; it is undefined when
  the truncated value is not a \<open>uint32_t\<close>.
\<close>

definition float_of_uint32 :: "uint32_t \<Rightarrow> float" where
  "float_of_uint32 n = round_float (real (unat n))"

fun uint32_of_float :: "float \<Rightarrow> failure + uint32_t" where
  "uint32_of_float (Finite x) =
     (if - 1 < x \<and> x < 4294967296
      then Inr (word_of_int (if 0 \<le> x then \<lfloor>x\<rfloor> else \<lceil>x\<rceil>))
      else Inl ConversionOutOfRange)"
| "uint32_of_float _ = Inl ConversionOutOfRange"

text \<open>\<open>::std::max(a, b)\<close> is \<open>(a < b) ? b : a\<close>.\<close>

definition std_max :: "float \<Rightarrow> float \<Rightarrow> float" where
  "std_max a b = (if flt a b then b else a)"

text \<open>
  The functions of the GLM library that the source calls, as GLM defines them:
  \<open>max(x, y)\<close> is \<open>(x < y) ? y : x\<close>, \<open>min(x, y)\<close> is \<open>(y < x) ? y : x\<close>,
  \<open>clamp(x, minVal, maxVal)\<close> is \<open>min(max(x, minVal), maxVal)\<close>, \<open>dot\<close> on \<open>vec3\<close> adds
  the three products from left to right, and a \<open>vec3\<close> divided by a scalar divides
  each component.
\<close>

type_synonym vec3 = "float \<times> float \<times> float"

definition glm_max :: "float \<Rightarrow> float \<Rightarrow> float" where
  "glm_max x y = (if flt x y then y else x)"

definition glm_min :: "float \<Rightarrow> float \<Rightarrow> float" where
  "glm_min x y = (if flt y x then y else x)"

definition glm_clamp :: "float \<Rightarrow> float \<Rightarrow> float \<Rightarrow> float" where
  "glm_clamp x minVal maxVal = glm_min (glm_max x minVal) maxVal"

fun glm_dot :: "vec3 \<Rightarrow> vec3 \<Rightarrow> float" where
  "glm_dot (a0, a1, a2) (b0, b1, b2) = fadd (fadd (fmul a0 b0) (fmul a1 b1)) (fmul a2 b2)"

fun vec3_div :: "vec3 \<Rightarrow> float \<Rightarrow> vec3" where
  "vec3_div (v0, v1, v2) scalar = (fdiv v0 scalar, fdiv v1 scalar, fdiv v2 scalar)"

subsection \<open>roundDownToMultipleOf\<close>

definition roundDownToMultipleOf :: "int32_t \<Rightarrow> int32_t \<Rightarrow> failure + int32_t" where
  "roundDownToMultipleOf value multiple =
     bind (int32_rem value multiple) (\<lambda>rest.
       if 1 <s rest then int32_sub value rest else Inr value)"

subsection \<open>haltonSequence\<close>

text \<open>
  The \<open>while\<close> loop, with \<open>fraction\<close> and \<open>nextValue\<close> as accumulators. The loop need
  not end, so its result is an option: \<open>None\<close> is a run that never returns.
  \<open>index / base\<close> is the unsigned division, and \<open>::std::floor\<close> of its (integral) result
  and the cast back change nothing; \<open>index % base\<close> is undefined for \<open>base = 0\<close>.
\<close>

partial_function (option) haltonLoop ::
  "uint32_t \<Rightarrow> uint32_t \<Rightarrow> float \<Rightarrow> float \<Rightarrow> (failure + float) option" where
  "haltonLoop index base fraction nextValue =
     (if 0 < index then
        (if base = 0 then Some (Inl DivisionByZero)
         else
           let fraction' = fdiv fraction (float_of_uint32 base);
               nextValue' = fadd nextValue (fmul fraction' (float_of_uint32 (index mod base)))
           in haltonLoop (index div base) base fraction' nextValue')
      else Some (Inr nextValue))"

definition haltonSequence :: "uint32_t \<Rightarrow> uint32_t \<Rightarrow> (failure + float) option" where
  "haltonSequence index base = haltonLoop index base (Finite 1) (Finite 0)"

subsection \<open>incrementalAvg\<close>

fun incrementalAvg :: "vec3 \<Rightarrow> int32_t \<Rightarrow> int32_t \<Rightarrow> failure + int32_t" where
  "incrementalAvg (sample0, sample1, sample2) avg numSample =
     (let avgUnsigned = avg;
          numSampleUnsigned = numSample;
          lastRed = avgUnsigned AND 0xFF;
          lastGreen = drop_bit 8 avgUnsigned AND 0xFF;
          lastBlue = drop_bit 16 avgUnsigned AND 0xFF
      in
      bind (uint32_of_float (fmul sample0 (float_of_uint32 255))) (\<lambda>samplerRed.
      bind (uint32_of_float (fmul sample1 (float_of_uint32 255))) (\<lambda>samplerGreen.
      bind (uint32_of_float (fmul sample2 (float_of_uint32 255))) (\<lambda>samplerBlue.
      bind (uint32_div ((numSampleUnsigned - 1) * lastRed + samplerRed) numSampleUnsigned)
        (\<lambda>currentRed.
      bind (uint32_div ((numSampleUnsigned - 1) * lastGreen + samplerGreen) numSampleUnsigned)
        (\<lambda>currentGreen.
      bind (uint32_div ((numSampleUnsigned - 1) * lastBlue + samplerBlue) numSampleUnsigned)
        (\<lambda>currentBlue.
      let retR = min currentRed 255;
          retG = min currentGreen 255;
          retB = min currentBlue 255
      in Inr (0xFF000000 OR push_bit 16 retB OR push_bit 8 retG OR retR))))))))"

text \<open>
  Reading a packed colour (alpha, blue, green, red from the most significant byte down),
  and the sample channel \<open>s\<close> scaled to 0..255 as the source does it: the float product
  \<open>s * 255\<close>, truncated.
\<close>

definition red_of :: "int32_t \<Rightarrow> nat" where
  "red_of c = unat (c AND 0xFF)"

definition green_of :: "int32_t \<Rightarrow> nat" where
  "green_of c = unat (drop_bit 8 c AND 0xFF)"

definition blue_of :: "int32_t \<Rightarrow> nat" where
  "blue_of c = unat (drop_bit 16 c AND 0xFF)"

definition alpha_of :: "int32_t \<Rightarrow> nat" where
  "alpha_of c = unat (drop_bit 24 c AND 0xFF)"

definition scaledSample :: "real \<Rightarrow> nat" where
  "scaledSample s = nat \<lfloor>fl32 (s * 255)\<rfloor>"

subsection \<open>equal\<close>

text \<open>
  \<open>Epsilon\<close> is a constant of Constants.hpp, which is not part of the source at hand: it
  is a parameter of the model.
\<close>

definition equal :: "float \<Rightarrow> float \<Rightarrow> float \<Rightarrow> bool" where
  "equal Epsilon a b = (let absValue = fabs (fsub a b) in flt absValue Epsilon)"

subsection \<open>normalize\<close>

fun normalize :: "vec3 \<Rightarrow> vec3" where
  "normalize (color0, color1, color2) =
     (let max = std_max (std_max color0 color1) color2
      in if flt (Finite 1) max then vec3_div (color0, color1, color2) max
         else (color0, color1, color2))"

subsection \<open>fresnel\<close>

text \<open>The first statement of \<open>fresnel\<close>: the initial value of \<open>cosi\<close>.\<close>

definition fresnel_cosi :: "vec3 \<Rightarrow> vec3 \<Rightarrow> float" where
  "fresnel_cosi I N = glm_clamp (Finite (- 1)) (Finite 1) (glm_dot I N)"

text \<open>The rest of \<open>fresnel\<close>, from the initial value of \<open>cosi\<close>.\<close>

definition fresnel_kr :: "float \<Rightarrow> float \<Rightarrow> float" where
  "fresnel_kr cosi ior =
     (let (etai, etat) = (if flt (Finite 0) cosi then (ior, Finite 1) else (Finite 1, ior));
          sint = fmul (fdiv etai etat)
                   (fsqrt (std_max (Finite 0) (fsub (Finite 1) (fmul cosi cosi))))
      in if fle (Finite 1) sint then Finite 1
         else
           let cost = fsqrt (std_max (Finite 0) (fsub (Finite 1) (fmul sint sint)));
               cosi = fabs cosi;
               Rs = fdiv (fsub (fmul etat cosi) (fmul etai cost))
                         (fadd (fmul etat cosi) (fmul etai cost));
               Rp = fdiv (fsub (fmul etai cosi) (fmul etat cost))
                         (fadd (fmul etai cosi) (fmul etat cost))
           in fdiv (fadd (fmul Rs Rs) (fmul Rp Rp)) (Finite 2))"

definition fresnel :: "vec3 \<Rightarrow> vec3 \<Rightarrow> float \<Rightarrow> float" where
  "fresnel I N ior = fresnel_kr (fresnel_cosi I N) ior"

subsection \<open>checkSystemError\<close>

text \<open>
  The process state that \<open>checkSystemError\<close> reads and writes: \<open>errno\<close>, the locale
  (\<open>LC_ALL\<close>) set by \<open>setlocale\<close>, and the sink of the logging macros. What the source
  takes from headers
  and from the platform is a parameter of the model: the two error numbers, the lookup
  \<open>getErrorCode\<close> of ErrorCode.hpp (it reads \<open>errno\<close>), \<open>strerror\<close>, \<open>sysconf\<close>, whether
  the build is for a system with \<open>sysconf\<close> (neither Windows nor MacOS), and the logging
  macros \<open>LOG_DEBUG\<close>, \<open>LOG_INFO\<close> and \<open>LOG_ERROR\<close> of Utils.hpp, each of which takes the
  text of its arguments and the sink and returns the sink. The platform calls are taken
  not to write \<open>errno\<close>.
\<close>

record ErrorType =
  codeText :: string
  description :: string

datatype sysconf_name = SC_PHYS_PAGES | SC_PAGESIZE | SC_AVPHYS_PAGES

record 'l platform =
  EWOULDBLOCK :: int
  EINVAL :: int
  getErrorCode :: "int \<Rightarrow> ErrorType"
  strerror :: "int \<Rightarrow> string"
  has_sysconf :: bool
  sysconf :: "sysconf_name \<Rightarrow> int"
  LOG_DEBUG :: "string \<Rightarrow> 'l \<Rightarrow> 'l"
  LOG_INFO :: "string \<Rightarrow> 'l \<Rightarrow> 'l"
  LOG_ERROR :: "string \<Rightarrow> 'l \<Rightarrow> 'l"

record 'l process =
  errno :: int
  lc_all :: string
  log :: 'l

text \<open>\<open>to_string\<close>: the decimal digits of an integer.\<close>

fun digits :: "nat \<Rightarrow> string" where
  "digits n = (if n < 10 then [char_of (48 + n)]
               else digits (n div 10) @ [char_of (48 + n mod 10)])"

definition to_string :: "int \<Rightarrow> string" where
  "to_string i = (if i < 0 then CHR ''-'' # digits (nat (- i)) else digits (nat i))"

definition checkSystemError ::
  "'l platform \<Rightarrow> string \<Rightarrow> 'l process \<Rightarrow> (failure + unit) \<times> 'l process" where
  "checkSystemError P message s =
     (let s = s\<lparr>log := LOG_DEBUG P (''Called checkSystemError: '' @ message) (log s)\<rparr>
      in
      if errno s \<noteq> 0 \<and> errno s \<noteq> EWOULDBLOCK P \<and> errno s \<noteq> EINVAL P then
        let s = s\<lparr>lc_all := ''en_US.UTF-8''\<rparr>;
            currentError = getErrorCode P (errno s);
            s = s\<lparr>log := LOG_DEBUG P (''errorCode: '' @ codeText currentError) (log s)\<rparr>;
            errorMessage = message @ [CHR 0x0A] @ codeText currentError @ [CHR 0x0A] @
                           description currentError @ [CHR 0x0A] @
                           ''errno ('' @ to_string (errno s) @ ''): '' @ strerror P (errno s);
            s = s\<lparr>log := LOG_ERROR P (''errorMessage: '' @ errorMessage) (log s)\<rparr>;
            s = (if has_sysconf P then
                   let bytesInMegabyte = 1048576;
                       s = s\<lparr>log := LOG_INFO P (''Available memory: '' @
                              to_string ((sysconf P SC_PHYS_PAGES * sysconf P SC_PAGESIZE)
                                         sdiv bytesInMegabyte) @ '' MB'') (log s)\<rparr>
                   in s\<lparr>log := LOG_INFO P (''Free memory: '' @
                              to_string ((sysconf P SC_AVPHYS_PAGES * sysconf P SC_PAGESIZE)
                                         sdiv bytesInMegabyte) @ '' MB'') (log s)\<rparr>
                 else s);
            s = s\<lparr>errno := 0\<rparr>
        in (Inl (RuntimeError errorMessage), s)
      else (Inr (), s))"

text \<open>
  An instance of the parameters, for concrete runs: the error numbers of Linux, a build
  with \<open>sysconf\<close>, and logging macros that append the line to a list of lines; and a
  process with a given \<open>errno\<close> that has logged nothing yet.
\<close>

definition linux_debug :: "string list platform" where
  "linux_debug =
     \<lparr>EWOULDBLOCK = 11, EINVAL = 22,
      getErrorCode =
        (\<lambda>e. \<lparr>codeText = ''ENOENT'', description = ''No such file or directory''\<rparr>),
      strerror = (\<lambda>e. ''No such file or directory''),
      has_sysconf = True,
      sysconf = (\<lambda>n. case n of SC_PAGESIZE \<Rightarrow> 4096 | _ \<Rightarrow> 1048576),
      LOG_DEBUG = (\<lambda>text sink. sink @ [''DEBUG '' @ text]),
      LOG_INFO = (\<lambda>text sink. sink @ [''INFO '' @ text]),
      LOG_ERROR = (\<lambda>text sink. sink @ [''ERROR '' @ text])\<rparr>"

definition quiet :: "int \<Rightarrow> string list process" where
  "quiet e = \<lparr>errno = e, lc_all = ''C'', log = []\<rparr>"

section \<open>Properties\<close>

subsection \<open>Rounding to the binary32 grid\<close>

text \<open>
  \<open>rne\<close> is monotone, odd and the identity on integers; \<open>ilog2\<close> is the binary exponent;
  \<open>fl32\<close> is monotone, odd, idempotent, and exact on every \<open>k * 2 powi j\<close> with
  \<open>\<bar>k\<bar> \<le> 2^24\<close> and \<open>j \<ge> -149\<close>.
\<close>

lemma rne_of_int: "rne (of_int k) = k"
  by (simp add: rne_def)

lemma rne_cases: "rne x = \<lfloor>x\<rfloor> \<or> rne x = \<lfloor>x\<rfloor> + 1"
  by (simp add: rne_def Let_def)

lemma rne_mono: "x \<le> y \<Longrightarrow> rne x \<le> rne y"
proof -
  assume xy: "x \<le> y"
  then have fl: "\<lfloor>x\<rfloor> \<le> \<lfloor>y\<rfloor>" by (rule floor_mono)
  show ?thesis
  proof (cases "\<lfloor>x\<rfloor> = \<lfloor>y\<rfloor>")
    case True
    with xy show ?thesis by (auto simp add: rne_def Let_def)
  next
    case False
    with fl have "\<lfloor>x\<rfloor> + 1 \<le> \<lfloor>y\<rfloor>" by simp
    moreover have "rne x \<le> \<lfloor>x\<rfloor> + 1" using rne_cases[of x] by auto
    moreover have "\<lfloor>y\<rfloor> \<le> rne y" using rne_cases[of y] by auto
    ultimately show ?thesis by linarith
  qed
qed

lemma rne_minus: "rne (- x) = - rne x"
proof (cases "x = of_int \<lfloor>x\<rfloor>")
  case True
  then obtain k where "x = of_int k" ..
  then have "- x = of_int (- k)" by simp
  then show ?thesis using rne_of_int \<open>x = of_int k\<close> by metis
next
  case False
  then have lt: "of_int \<lfloor>x\<rfloor> < x" using of_int_floor_le[of x] by linarith
  have ub: "x < of_int \<lfloor>x\<rfloor> + 1" by linarith
  have fm: "\<lfloor>- x\<rfloor> = - \<lfloor>x\<rfloor> - 1"
    using lt ub by (intro floor_unique) (auto simp: algebra_simps)
  show ?thesis
    using lt by (auto simp add: rne_def Let_def fm algebra_simps)
qed

lemma rne_ge: "of_int k \<le> x \<Longrightarrow> k \<le> rne x"
  using rne_mono[of "of_int k" x] by (simp add: rne_of_int)

lemma rne_le: "x \<le> of_int k \<Longrightarrow> rne x \<le> k"
  using rne_mono[of x "of_int k"] by (simp add: rne_of_int)


lemma powi_nat: "0 \<le> e \<Longrightarrow> (2::real) powi e = 2 ^ nat e"
  by (simp add: power_int_def)

lemma ilog2_bounds:
  assumes "0 < x"
  shows "2 powi ilog2 x \<le> x \<and> x < 2 powi (ilog2 x + 1)"
proof (cases "1 \<le> x")
  case True
  define n where "n = \<lfloor>x\<rfloor>"
  have n1: "1 \<le> n" using True by (simp add: n_def)
  define b where "b = bitlen n"
  have bb: "2 ^ nat (b - 1) \<le> n \<and> n < 2 ^ nat b"
    using bitlen_bounds[of n] n1 by (simp add: b_def)
  have b1: "1 \<le> b"
    using bb n1 by (cases "b \<le> 0") auto
  have il: "ilog2 x = b - 1" using True by (simp add: ilog2_def b_def n_def)
  have "real_of_int (2 ^ nat (b - 1)) \<le> real_of_int n" using bb by (simp only: of_int_le_iff)
  also have "\<dots> \<le> x" by (simp add: n_def)
  finally have lo: "2 powi (b - 1) \<le> x" using b1 by (simp add: powi_nat)
  have "n + 1 \<le> 2 ^ nat b" using bb by simp
  then have "real_of_int (n + 1) \<le> real_of_int (2 ^ nat b)" by (simp only: of_int_le_iff)
  moreover have "x < real_of_int (n + 1)" by (simp add: n_def)
  ultimately have hi: "x < 2 powi b" using b1 by (simp add: powi_nat)
  from lo hi il show ?thesis by simp
next
  case False
  then have x1: "x < 1" by simp
  define y where "y = 1 / x"
  have y1: "1 < y" using assms x1 by (simp add: y_def)
  define m where "m = \<lceil>y\<rceil> - 1"
  have my: "real_of_int m < y" "y \<le> real_of_int m + 1"
    by (simp_all add: m_def) linarith+
  then have m1: "1 \<le> m" using y1 by linarith
  define b where "b = bitlen m"
  have bb: "2 ^ nat (b - 1) \<le> m \<and> m < 2 ^ nat b"
    using bitlen_bounds[of m] m1 by (simp add: b_def)
  have b1: "1 \<le> b"
    using bb m1 by (cases "b \<le> 0") auto
  have il: "ilog2 x = - b" using False by (simp add: ilog2_def b_def m_def y_def)
  have "m + 1 \<le> 2 ^ nat b" using bb by simp
  then have "real_of_int (m + 1) \<le> real_of_int (2 ^ nat b)" by (simp only: of_int_le_iff)
  then have "real_of_int m + 1 \<le> (2::real) ^ nat b" by simp
  with my have yhi: "y \<le> 2 ^ nat b" by linarith
  have "real_of_int (2 ^ nat (b - 1)) \<le> real_of_int m" using bb by (simp only: of_int_le_iff)
  then have "(2::real) ^ nat (b - 1) \<le> real_of_int m" by simp
  with my have ylo: "2 ^ nat (b - 1) < y" by linarith
  have xy: "x = 1 / y" using assms by (simp add: y_def)
  have p1: "(2::real) powi (- b) = 1 / 2 ^ nat b"
    using b1 by (simp add: power_int_def field_simps)
  have p2: "(2::real) powi (- b + 1) = 1 / 2 ^ nat (b - 1)"
    using b1 by (auto simp add: power_int_def field_simps nat_diff_distrib)
  have lo: "2 powi (- b) \<le> x"
    unfolding p1 xy using yhi y1 by (simp add: field_simps)
  have hi: "x < 2 powi (- b + 1)"
    unfolding p2 xy using ylo y1 by (simp add: field_simps)
  from lo hi il show ?thesis by simp
qed

lemma powi_mono: "a \<le> b \<Longrightarrow> (2::real) powi a \<le> 2 powi b"
  by (rule power_int_increasing) simp_all

lemma powi_strict: "(2::real) powi a < 2 powi b \<Longrightarrow> a < b"
  using powi_mono[of b a] by (cases "a < b") auto

lemma ilog2_unique:
  assumes "0 < x" "2 powi e \<le> x" "x < 2 powi (e + 1)"
  shows "ilog2 x = e"
proof -
  from ilog2_bounds[OF assms(1)] have b: "2 powi ilog2 x \<le> x" "x < 2 powi (ilog2 x + 1)" by auto
  have "2 powi e < (2::real) powi (ilog2 x + 1)" using assms(2) b(2) by linarith
  then have 1: "e < ilog2 x + 1" by (rule powi_strict)
  have "2 powi ilog2 x < (2::real) powi (e + 1)" using assms(3) b(1) by linarith
  then have 2: "ilog2 x < e + 1" by (rule powi_strict)
  from 1 2 show ?thesis by simp
qed

lemma ilog2_mono: "0 < x \<Longrightarrow> x \<le> y \<Longrightarrow> ilog2 x \<le> ilog2 y"
proof -
  assume x: "0 < x" and xy: "x \<le> y"
  then have y: "0 < y" by simp
  have "2 powi ilog2 x \<le> x" using ilog2_bounds[OF x] by simp
  also have "\<dots> \<le> y" by fact
  also have "\<dots> < 2 powi (ilog2 y + 1)" using ilog2_bounds[OF y] by simp
  finally have "ilog2 x < ilog2 y + 1" by (rule powi_strict)
  then show ?thesis by simp
qed


lemma ulp_pos: "0 < ulp x"
  by (simp add: ulp_def)

lemma binade_minus: "binade (- x) = binade x"
  by (simp add: binade_def)

lemma ulp_minus: "ulp (- x) = ulp x"
  by (simp add: ulp_def binade_minus)

lemma fl32_0: "fl32 0 = 0"
  by (simp add: fl32_def)

lemma fl32_minus: "fl32 (- x) = - fl32 x"
  by (simp add: fl32_def ulp_minus rne_minus)

lemma fl32_nonneg: "0 \<le> x \<Longrightarrow> 0 \<le> fl32 x"
proof -
  assume "0 \<le> x"
  then have "of_int 0 \<le> x / ulp x" using ulp_pos[of x] by simp
  then have "0 \<le> rne (x / ulp x)" by (rule rne_ge)
  then show ?thesis using ulp_pos[of x] by (simp add: fl32_def)
qed

lemma binade_mono: "0 < x \<Longrightarrow> x \<le> y \<Longrightarrow> binade x \<le> binade y"
  using ilog2_mono[of x y] by (simp add: binade_def)

lemma powi_split: "(2::real) powi (a + b) = 2 powi a * 2 powi b"
  by (simp add: power_int_add)

lemma ulp_scale: "2 powi (binade x + 1) = 16777216 * ulp x"
proof -
  have "(2::real) powi (24 + (binade x - 23)) = 2 powi 24 * 2 powi (binade x - 23)"
    by (rule powi_split)
  moreover have "24 + (binade x - 23) = binade x + 1" by simp
  ultimately show ?thesis by (simp add: ulp_def)
qed

lemma ulp_scale': "2 powi (binade x) = 8388608 * ulp x"
proof -
  have "(2::real) powi (23 + (binade x - 23)) = 2 powi 23 * 2 powi (binade x - 23)"
    by (rule powi_split)
  then show ?thesis by (simp add: ulp_def)
qed

lemma quot_lt: assumes "0 < x" shows "x / ulp x < 16777216"
proof -
  have "x < 2 powi (ilog2 x + 1)" using ilog2_bounds[OF assms] by simp
  also have "\<dots> \<le> 2 powi (binade x + 1)"
    using assms by (intro powi_mono) (simp add: binade_def)
  finally have "x < 16777216 * ulp x" by (simp add: ulp_scale)
  then show ?thesis using ulp_pos[of x] by (simp add: field_simps)
qed

lemma quot_ge: assumes "0 < x" "- 126 \<le> ilog2 x" shows "8388608 \<le> x / ulp x"
proof -
  have "binade x = ilog2 x" using assms by (simp add: binade_def)
  then have "2 powi (binade x) \<le> x" using ilog2_bounds[OF assms(1)] by simp
  then have "8388608 * ulp x \<le> x" by (simp add: ulp_scale')
  then show ?thesis using ulp_pos[of x] by (simp add: field_simps)
qed

lemma fl32_le_top: assumes "0 < x" shows "fl32 x \<le> 2 powi (binade x + 1)"
proof -
  have "x / ulp x \<le> of_int 16777216" using quot_lt[OF assms] by simp
  then have "rne (x / ulp x) \<le> 16777216" by (rule rne_le)
  then have "real_of_int (rne (x / ulp x)) \<le> 16777216" by linarith
  then have "real_of_int (rne (x / ulp x)) * ulp x \<le> 16777216 * ulp x"
    using ulp_pos[of x] by (simp add: mult_right_mono)
  then show ?thesis using assms by (simp add: fl32_def ulp_scale)
qed

lemma fl32_ge_bottom:
  assumes "0 < x" "- 126 \<le> ilog2 x" shows "2 powi (binade x) \<le> fl32 x"
proof -
  have "of_int 8388608 \<le> x / ulp x" using quot_ge[OF assms] by simp
  then have "8388608 \<le> rne (x / ulp x)" by (rule rne_ge)
  then have "8388608 \<le> real_of_int (rne (x / ulp x))" by linarith
  then have "8388608 * ulp x \<le> real_of_int (rne (x / ulp x)) * ulp x"
    using ulp_pos[of x] by (simp add: mult_right_mono)
  then show ?thesis using assms by (simp add: fl32_def ulp_scale')
qed

lemma fl32_mono_pos: assumes "0 < x" "x \<le> y" shows "fl32 x \<le> fl32 y"
proof -
  have y: "0 < y" using assms by simp
  have le: "binade x \<le> binade y" using assms by (rule binade_mono)
  show ?thesis
  proof (cases "binade x = binade y")
    case True
    then have u: "ulp x = ulp y" by (simp add: ulp_def)
    have "x / ulp y \<le> y / ulp y" using assms ulp_pos[of y] by (simp add: divide_right_mono)
    then have "rne (x / ulp y) \<le> rne (y / ulp y)" by (rule rne_mono)
    then have "real_of_int (rne (x / ulp y)) * ulp y \<le> real_of_int (rne (y / ulp y)) * ulp y"
      using ulp_pos[of y] by (simp add: mult_right_mono)
    then show ?thesis using assms y u by (simp add: fl32_def)
  next
    case False
    with le have lt: "binade x + 1 \<le> binade y" by simp
    then have "- 126 < binade y" by (simp add: binade_def)
    then have il: "- 126 \<le> ilog2 \<bar>y\<bar>" by (simp add: binade_def)
    then have il': "- 126 \<le> ilog2 y" using y by simp
    have "fl32 x \<le> 2 powi (binade x + 1)" using assms(1) by (rule fl32_le_top)
    also have "\<dots> \<le> 2 powi (binade y)" using lt by (rule powi_mono)
    also have "\<dots> \<le> fl32 y" using y il' by (rule fl32_ge_bottom)
    finally show ?thesis .
  qed
qed

lemma fl32_mono: assumes "x \<le> y" shows "fl32 x \<le> fl32 y"
proof -
  consider "0 < x" | "x \<le> 0" "0 \<le> y" | "y < 0" by linarith
  then show ?thesis
  proof cases
    case 1
    then show ?thesis using assms by (rule fl32_mono_pos)
  next
    case 2
    have "0 \<le> fl32 (- x)" using 2 by (intro fl32_nonneg) simp
    then have "fl32 x \<le> 0" by (simp add: fl32_minus)
    also have "0 \<le> fl32 y" using 2 by (intro fl32_nonneg)
    finally show ?thesis .
  next
    case 3
    then have "0 < - y" "- y \<le> - x" using assms by simp_all
    then have "fl32 (- y) \<le> fl32 (- x)" by (rule fl32_mono_pos)
    then show ?thesis by (simp add: fl32_minus)
  qed
qed

lemma fl32_abs: "\<bar>fl32 x\<bar> = fl32 \<bar>x\<bar>"
proof (cases "0 \<le> x")
  case True
  then show ?thesis using fl32_nonneg[of x] by simp
next
  case False
  then have "0 \<le> fl32 (- x)" by (intro fl32_nonneg) simp
  then show ?thesis using False by (simp add: fl32_minus)
qed

lemma fl32_grid_lt:
  assumes k: "\<bar>k\<bar> < 16777216" and j: "- 149 \<le> j"
  shows "fl32 (of_int k * 2 powi j) = of_int k * 2 powi j"
proof (cases "k = 0")
  case True
  then show ?thesis by (simp add: fl32_0)
next
  case False
  define x :: real where "x = of_int k * 2 powi j"
  have xn: "x \<noteq> 0" using False by (simp add: x_def)
  then have xp: "0 < \<bar>x\<bar>" by simp
  have ax: "\<bar>x\<bar> = of_int \<bar>k\<bar> * 2 powi j" by (simp add: x_def abs_mult)
  have "real_of_int \<bar>k\<bar> < 16777216" using k by linarith
  then have "\<bar>x\<bar> < 16777216 * 2 powi j" unfolding ax by (simp add: mult_strict_right_mono)
  also have "\<dots> = 2 powi (24 + j)" using powi_split[of 24 j] by simp
  finally have "\<bar>x\<bar> < 2 powi (24 + j)" .
  moreover have "2 powi ilog2 \<bar>x\<bar> \<le> \<bar>x\<bar>" using ilog2_bounds[OF xp] by simp
  ultimately have "(2::real) powi ilog2 \<bar>x\<bar> < 2 powi (24 + j)" by linarith
  then have "ilog2 \<bar>x\<bar> < 24 + j" by (rule powi_strict)
  then have be: "binade x \<le> 23 + j" using j by (simp add: binade_def)
  define n where "n = nat (23 + j - binade x)"
  have jn: "j = int n + (binade x - 23)" using be by (simp add: n_def)
  have "(2::real) powi (int n + (binade x - 23)) = 2 powi (int n) * 2 powi (binade x - 23)"
    by (rule powi_split)
  then have pj': "(2::real) powi j = 2 ^ n * ulp x" using jn by (simp add: ulp_def)
  define u where "u = ulp x"
  have up: "0 < u" by (simp add: u_def ulp_pos)
  have pj: "(2::real) powi j = 2 ^ n * u" using pj' by (simp add: u_def)
  have "x / u = of_int k * 2 ^ n" using up by (simp add: x_def pj)
  also have "\<dots> = of_int (k * 2 ^ n)" by simp
  finally have q: "x / u = of_int (k * 2 ^ n)" .
  have "rne (x / u) = k * 2 ^ n" unfolding q by (rule rne_of_int)
  then have "fl32 x = of_int (k * 2 ^ n) * u" using xn by (simp add: fl32_def u_def)
  also have "\<dots> = x" by (simp add: x_def pj)
  finally show ?thesis by (simp add: x_def)
qed

lemma fl32_grid:
  assumes k: "\<bar>k\<bar> \<le> 16777216" and j: "- 149 \<le> j"
  shows "fl32 (of_int k * 2 powi j) = of_int k * 2 powi j"
proof (cases "\<bar>k\<bar> < 16777216")
  case True
  then show ?thesis using j by (rule fl32_grid_lt)
next
  case False
  with k have "k = 16777216 \<or> k = - 16777216" by linarith
  then obtain h :: int where h: "k = 2 * h" "\<bar>h\<bar> < 16777216" by auto
  have "(2::real) powi (1 + j) = 2 powi 1 * 2 powi j" by (rule powi_split)
  then have e: "real_of_int k * 2 powi j = of_int h * 2 powi (j + 1)"
    by (simp add: h(1) add.commute)
  have "fl32 (of_int h * 2 powi (j + 1)) = of_int h * 2 powi (j + 1)"
    using h(2) j by (intro fl32_grid_lt) simp_all
  then show ?thesis by (simp add: e)
qed

lemma fl32_is_grid:
  "\<exists>k j. fl32 x = of_int k * 2 powi j \<and> \<bar>k\<bar> \<le> 16777216 \<and> - 149 \<le> j"
proof (cases "x = 0")
  case True
  have "fl32 x = of_int 0 * 2 powi 0" using True by (simp add: fl32_0)
  then show ?thesis by (intro exI[of _ 0] exI[of _ "0::int"]) simp
next
  case False
  then have xp: "0 < \<bar>x\<bar>" by simp
  have "\<bar>x\<bar> / ulp \<bar>x\<bar> \<le> of_int 16777216" using quot_lt[OF xp] by simp
  then have "rne (\<bar>x\<bar> / ulp \<bar>x\<bar>) \<le> 16777216" by (rule rne_le)
  moreover have "of_int 0 \<le> \<bar>x\<bar> / ulp \<bar>x\<bar>" using ulp_pos[of "\<bar>x\<bar>"] by simp
  then have "0 \<le> rne (\<bar>x\<bar> / ulp \<bar>x\<bar>)" by (rule rne_ge)
  moreover have "\<bar>rne (x / ulp x)\<bar> = rne (\<bar>x\<bar> / ulp \<bar>x\<bar>)"
  proof (cases "0 \<le> x")
    case True
    then have "of_int 0 \<le> x / ulp x" using ulp_pos[of x] by simp
    then have "0 \<le> rne (x / ulp x)" by (rule rne_ge)
    then show ?thesis using True by simp
  next
    case False
    then have a: "\<bar>x\<bar> = - x" by simp
    have "x / ulp x \<le> of_int 0" using False ulp_pos[of x] by (simp add: divide_le_0_iff)
    then have "rne (x / ulp x) \<le> 0" by (rule rne_le)
    moreover have "rne (- x / ulp (- x)) = - rne (x / ulp x)"
      using rne_minus[of "x / ulp x"] by (simp add: ulp_minus)
    ultimately show ?thesis unfolding a by simp
  qed
  ultimately have kb: "\<bar>rne (x / ulp x)\<bar> \<le> 16777216" by simp
  have jb: "- 149 \<le> binade x - 23" by (simp add: binade_def)
  have "fl32 x = of_int (rne (x / ulp x)) * 2 powi (binade x - 23)"
    using False by (simp add: fl32_def ulp_def)
  with kb jb show ?thesis by blast
qed

lemma fl32_idem: "fl32 (fl32 x) = fl32 x"
proof -
  obtain k j where g: "fl32 x = of_int k * 2 powi j" "\<bar>k\<bar> \<le> 16777216" "- 149 \<le> j"
    using fl32_is_grid[of x] by blast
  then show ?thesis using fl32_grid[of k j] by simp
qed

lemma fl32_double: "fl32 (2 * fl32 x) = 2 * fl32 x"
proof -
  obtain k j where g: "fl32 x = of_int k * 2 powi j" "\<bar>k\<bar> \<le> 16777216" "- 149 \<le> j"
    using fl32_is_grid[of x] by blast
  have "(2::real) powi (1 + j) = 2 powi 1 * 2 powi j" by (rule powi_split)
  then have e: "2 * fl32 x = of_int k * 2 powi (j + 1)" by (simp add: g(1) add.commute)
  have "fl32 (of_int k * 2 powi (j + 1)) = of_int k * 2 powi (j + 1)"
    using g(2,3) by (intro fl32_grid) simp_all
  then show ?thesis by (simp add: e)
qed

lemma fl32_of_int: "\<bar>k\<bar> \<le> 16777216 \<Longrightarrow> fl32 (of_int k) = of_int k"
  using fl32_grid[of k 0] by simp

lemma fl32_numerals: "fl32 1 = 1" "fl32 2 = 2" "fl32 255 = 255"
  using fl32_of_int[of 1] fl32_of_int[of 2] fl32_of_int[of 255] by simp_all

lemmas float_eval = float_of_uint32_def round_float_def fl32_def ulp_def binade_def ilog2_def
  rne_def Let_def compute_bitlen FLT_MAX_def


text \<open>
  \<open>fl32 x\<close> is a nearest grid point: it is on the grid (\<open>fl32_is_grid\<close>), it leaves grid
  points alone (\<open>fl32_grid\<close>), and it is within half a grid step of \<open>x\<close>.
\<close>

lemma rne_nearest: "\<bar>real_of_int (rne x) - x\<bar> \<le> 1 / 2"
proof -
  have "real_of_int \<lfloor>x\<rfloor> \<le> x" "x < real_of_int \<lfloor>x\<rfloor> + 1" by linarith+
  then show ?thesis by (auto simp add: rne_def Let_def)
qed

lemma fl32_nearest: "\<bar>fl32 x - x\<bar> \<le> ulp x / 2"
proof (cases "x = 0")
  case True
  then show ?thesis using ulp_pos[of 0] by (simp add: fl32_0)
next
  case False
  have "fl32 x - x = (real_of_int (rne (x / ulp x)) - x / ulp x) * ulp x"
    using False ulp_pos[of x] by (simp add: fl32_def field_simps)
  then have "\<bar>fl32 x - x\<bar> = \<bar>real_of_int (rne (x / ulp x)) - x / ulp x\<bar> * ulp x"
    using ulp_pos[of x] by (simp add: abs_mult)
  also have "\<dots> \<le> 1 / 2 * ulp x"
    using rne_nearest[of "x / ulp x"] ulp_pos[of x] by (intro mult_right_mono) simp_all
  finally show ?thesis by simp
qed


text \<open>The rounding error: relative in the normal range, absolute below 1.\<close>

lemma ilog2_ge_normal: assumes "2 powi (- 126) \<le> \<bar>x\<bar>" shows "binade x = ilog2 \<bar>x\<bar>"
proof -
  have "(0::real) < 2 powi (- 126)" by simp
  with assms have xp: "0 < \<bar>x\<bar>" by linarith
  have "\<bar>x\<bar> < 2 powi (ilog2 \<bar>x\<bar> + 1)" using ilog2_bounds[OF xp] by simp
  with assms have "(2::real) powi (- 126) < 2 powi (ilog2 \<bar>x\<bar> + 1)" by linarith
  then have "- 126 < ilog2 \<bar>x\<bar> + 1" by (rule powi_strict)
  then show ?thesis by (simp add: binade_def)
qed

lemma fl32_rel: assumes "2 powi (- 126) \<le> \<bar>x\<bar>" shows "\<bar>fl32 x - x\<bar> \<le> \<bar>x\<bar> / 16777216"
proof -
  have "(0::real) < 2 powi (- 126)" by simp
  with assms have xp: "0 < \<bar>x\<bar>" by linarith
  have "2 powi (binade x) \<le> \<bar>x\<bar>"
    using ilog2_bounds[OF xp] ilog2_ge_normal[OF assms] by simp
  then have "8388608 * ulp x \<le> \<bar>x\<bar>" by (simp add: ulp_scale')
  then have "ulp x / 2 \<le> \<bar>x\<bar> / 16777216" by simp
  with fl32_nearest[of x] show ?thesis by linarith
qed

lemma fl32_err_unit: assumes "\<bar>x\<bar> \<le> 1" shows "\<bar>fl32 x - x\<bar> \<le> 1 / 33554432"
proof -
  consider "x = 0" | "\<bar>x\<bar> = 1" | "0 < \<bar>x\<bar>" "\<bar>x\<bar> < 1" using assms by linarith
  then show ?thesis
  proof cases
    case 1
    then show ?thesis by (simp add: fl32_0)
  next
    case 2
    then have "x = 1 \<or> x = - 1" by linarith
    then show ?thesis using fl32_minus[of 1] by (auto simp add: fl32_numerals)
  next
    case 3
    have "2 powi ilog2 \<bar>x\<bar> \<le> \<bar>x\<bar>" using ilog2_bounds[OF 3(1)] by simp
    with 3(2) have "(2::real) powi ilog2 \<bar>x\<bar> < 2 powi 0" by simp
    then have "ilog2 \<bar>x\<bar> < 0" by (rule powi_strict)
    then have "binade x - 23 \<le> - 24" by (simp add: binade_def)
    then have "ulp x \<le> 2 powi (- 24)" unfolding ulp_def by (rule powi_mono)
    then have "ulp x / 2 \<le> 1 / 33554432" by (simp add: power_int_minus)
    with fl32_nearest[of x] show ?thesis by linarith
  qed
qed


lemma fl32_err: "\<bar>fl32 x - x\<bar> \<le> \<bar>x\<bar> / 16777216 + 1 / 1073741824"
proof (cases "2 powi (- 126) \<le> \<bar>x\<bar>")
  case True
  then show ?thesis using fl32_rel[of x] by simp
next
  case False
  show ?thesis
  proof (cases "x = 0")
    case True
    then show ?thesis by (simp add: fl32_0)
  next
    case nz: False
    then have xp: "0 < \<bar>x\<bar>" by simp
    have "2 powi ilog2 \<bar>x\<bar> \<le> \<bar>x\<bar>" using ilog2_bounds[OF xp] by simp
    with False have "(2::real) powi ilog2 \<bar>x\<bar> < 2 powi (- 126)" by linarith
    then have "ilog2 \<bar>x\<bar> < - 126" by (rule powi_strict)
    then have "binade x - 23 = - 149" by (simp add: binade_def)
    then have "ulp x = 2 powi (- 149)" unfolding ulp_def by (simp only:)
    also have "\<dots> \<le> 2 powi (- 29)" by (rule powi_mono) simp
    finally have "ulp x / 2 \<le> 1 / 1073741824" by (simp add: power_int_minus)
    with fl32_nearest[of x] have "\<bar>fl32 x - x\<bar> \<le> 1 / 1073741824" by linarith
    moreover have "0 \<le> \<bar>x\<bar> / 16777216" by simp
    ultimately show ?thesis by linarith
  qed
qed


text \<open>Known values: \<open>0.1F\<close>, the first integers that are not floats, and the subnormal end.\<close>

lemma fl32_examples:
  "fl32 (1 / 10) = 13421773 / 134217728"
  "fl32 16777217 = 16777216"
  "fl32 16777219 = 16777220"
  "fl32 (1 / 1000000) = 8796093 / 8796093022208"
  "fl32 (2 powi (- 150)) = 0"
  "fl32 (3 * 2 powi (- 150)) = 2 powi (- 148)"
  by (simp_all add: float_eval)

subsection \<open>roundDownToMultipleOf\<close>

lemma smod_int_between:
  fixes a b :: int
  shows "(0 \<le> a \<longrightarrow> 0 \<le> a smod b \<and> a smod b \<le> a) \<and>
         (a \<le> 0 \<longrightarrow> a \<le> a smod b \<and> a smod b \<le> 0)"
proof -
  have "0 \<le> \<bar>a\<bar> mod \<bar>b\<bar>" by (cases "b = 0") simp_all
  moreover have "\<bar>a\<bar> mod \<bar>b\<bar> \<le> \<bar>a\<bar>" by (simp add: zmod_le_nonneg_dividend)
  ultimately show ?thesis
    by (cases a "0::int" rule: linorder_cases) (simp_all add: signed_modulo_int_def)
qed

lemma smod_gt_1_imp: "1 < (a::int) smod b \<Longrightarrow> 0 < a \<and> a smod b \<le> a"
  using smod_int_between[of a b] by arith

lemma sint_rem_range:
  "- 2147483648 \<le> sint (a::32 word) smod sint (b::32 word) \<and>
   sint a smod sint b \<le> 2147483647"
proof -
  have "- 2147483648 \<le> sint a" "sint a \<le> 2147483647"
    using sint_ge[of a] sint_lt[of a] by simp_all
  with smod_int_between[of "sint a" "sint b"] show ?thesis by arith
qed

lemma sint_rem:
  "sint (word_of_int (sint (a::32 word) smod sint (b::32 word)) :: 32 word) = sint a smod sint b"
  using sint_rem_range[of a b]
  by (simp add: sint_sbintrunc' signed_take_bit_int_eq_self)

lemma roundDownToMultipleOf_10_3: "roundDownToMultipleOf 10 3 = Inr 10"
  by (simp add: roundDownToMultipleOf_def bind_def int32_rem_def INT32_MIN_def
      signed_modulo_int_def word_sless_alt)

lemma roundDownToMultipleOf_11_3: "roundDownToMultipleOf 11 3 = Inr 9"
  by (simp add: roundDownToMultipleOf_def bind_def int32_rem_def int32_sub_def INT32_MIN_def
      signed_modulo_int_def word_sless_alt)

text \<open>
  C4, as the source has it. For every \<open>value\<close> and every nonzero \<open>multiple\<close>, except the one
  pair \<open>value = INT32_MIN\<close>, \<open>multiple = -1\<close>, the call returns, and it returns \<open>value\<close>
  minus the remainder when the remainder of \<open>value\<close> by \<open>multiple\<close> (that of \<open>%\<close>: truncating
  division, the sign of \<open>value\<close>) is strictly greater than 1, and \<open>value\<close> unchanged
  otherwise. The subtraction never overflows.
\<close>

theorem roundDownToMultipleOf_spec:
  assumes "multiple \<noteq> 0" and "\<not> (value = INT32_MIN \<and> multiple = - 1)"
  shows "\<exists>r. roundDownToMultipleOf value multiple = Inr r \<and>
     sint r = (if 1 < sint value smod sint multiple
               then sint value - sint value smod sint multiple else sint value)"
proof -
  let ?a = "sint value" and ?b = "sint multiple"
  let ?rest = "word_of_int (?a smod ?b) :: 32 word"
  have rem: "int32_rem value multiple = Inr ?rest"
    using assms by (simp add: int32_rem_def)
  have srest: "sint ?rest = ?a smod ?b" by (rule sint_rem)
  show ?thesis
  proof (cases "1 < ?a smod ?b")
    case True
    then have pos: "0 < ?a" "?a smod ?b \<le> ?a" using smod_gt_1_imp by blast+
    have hi: "?a \<le> 2147483647" using sint_lt[of "value"] by simp
    have rng: "- 2147483648 \<le> ?a - sint ?rest \<and> ?a - sint ?rest \<le> 2147483647"
      using pos hi True srest by linarith
    have "sint (value - ?rest) = ?a - ?a smod ?b"
      using rng srest by (simp add: sint_word_ariths signed_take_bit_int_eq_self)
    with True rem rng srest show ?thesis
      by (simp add: roundDownToMultipleOf_def bind_def word_sless_alt int32_sub_def)
  next
    case False
    with rem srest show ?thesis
      by (simp add: roundDownToMultipleOf_def bind_def word_sless_alt)
  qed
qed

theorem roundDownToMultipleOf_spec_witness:
  "(3 :: int32_t) \<noteq> 0 \<and> \<not> ((11 :: int32_t) = INT32_MIN \<and> (3 :: int32_t) = - 1) \<and>
   (\<exists>r. roundDownToMultipleOf 11 3 = Inr r \<and> sint r = 9) \<and>
   (\<exists>r. roundDownToMultipleOf 10 3 = Inr r \<and> sint r = 10)"
  using roundDownToMultipleOf_spec[of 3 11] roundDownToMultipleOf_spec[of 3 10]
  by (simp add: INT32_MIN_def signed_modulo_int_def)

text \<open>
  C4, as stated, fails for a nonzero \<open>multiple\<close>: \<open>INT32_MIN % -1\<close> is undefined, and the
  call returns no value.
\<close>

theorem roundDownToMultipleOf_min_counterexample:
  "(- 1 :: int32_t) \<noteq> 0 \<and> roundDownToMultipleOf INT32_MIN (- 1) = Inl SignedOverflow"
  by (simp add: roundDownToMultipleOf_def bind_def int32_rem_def)

text \<open>
  C10. The remainder is taken with no guard on \<open>multiple\<close>: the call fails with a division
  by zero exactly when \<open>multiple\<close> is 0, so for every call with a nonzero \<open>multiple\<close> the
  division-by-zero branch is not reached.
\<close>

theorem roundDownToMultipleOf_division_by_zero:
  "(roundDownToMultipleOf value multiple = Inl DivisionByZero) = (multiple = 0)"
  by (auto simp add: roundDownToMultipleOf_def bind_def int32_rem_def int32_sub_def
      split: sum.splits if_splits)

subsection \<open>haltonSequence\<close>

lemma haltonLoop_terminates:
  assumes "2 \<le> base"
  shows "\<exists>y. haltonLoop index base fraction nextValue = Some (Inr y)"
proof (induction "unat index" arbitrary: index fraction nextValue rule: less_induct)
  case less
  show ?case
  proof (cases "index = 0")
    case True
    then show ?thesis by (simp add: haltonLoop.simps)
  next
    case False
    from assms have b2: "2 \<le> unat base" by (simp add: word_le_nat_alt)
    then have b0: "base \<noteq> 0" by auto
    have pos: "0 < unat index" using False by (simp add: unat_gt_0)
    have "unat (index div base) = unat index div unat base" by (simp add: unat_div)
    also have "\<dots> < unat index" using b2 pos by simp
    finally have dec: "unat (index div base) < unat index" .
    from less[OF dec] obtain y where
      "haltonLoop (index div base) base (fdiv fraction (float_of_uint32 base))
         (fadd nextValue (fmul (fdiv fraction (float_of_uint32 base))
            (float_of_uint32 (index mod base)))) = Some (Inr y)"
      by blast
    then show ?thesis
      using False b0 by (subst haltonLoop.simps) (simp add: word_gt_0 Let_def)
  qed
qed

lemma haltonLoop_base_1_returns:
  assumes "haltonLoop index base fraction nextValue = Some r"
  shows "base = 1 \<longrightarrow> index = 0"
proof (rule haltonLoop.raw_induct
    [where P = "\<lambda>index base fraction nextValue r. base = 1 \<longrightarrow> index = 0", OF _ assms])
  fix f :: "uint32_t \<Rightarrow> uint32_t \<Rightarrow> float \<Rightarrow> float \<Rightarrow> (failure + float) option"
  fix index base :: uint32_t and fraction nextValue :: float and r
  assume IH: "\<And>index base fraction nextValue r.
      f index base fraction nextValue = Some r \<Longrightarrow> base = 1 \<longrightarrow> index = 0"
  assume step: "(if 0 < index then
        (if base = 0 then Some (Inl DivisionByZero)
         else
           let fraction' = fdiv fraction (float_of_uint32 base);
               nextValue' = fadd nextValue (fmul fraction' (float_of_uint32 (index mod base)))
           in f (index div base) base fraction' nextValue')
      else Some (Inr nextValue)) = Some r"
  show "base = 1 \<longrightarrow> index = 0"
  proof
    assume b: "base = 1"
    show "index = 0"
    proof (rule ccontr)
      assume nz: "index \<noteq> 0"
      with step b have "f (index div 1) 1 (fdiv fraction (float_of_uint32 1))
         (fadd nextValue (fmul (fdiv fraction (float_of_uint32 1))
            (float_of_uint32 (index mod 1)))) = Some r"
        by (simp add: word_gt_0 Let_def)
      from IH[OF this] have "index div 1 = 0" by simp
      with nz show False by simp
    qed
  qed
qed

lemma haltonLoop_base_1_diverges:
  "index \<noteq> 0 \<Longrightarrow> haltonLoop index 1 fraction nextValue = None"
  using haltonLoop_base_1_returns[of index 1 fraction nextValue]
  by (cases "haltonLoop index 1 fraction nextValue") auto

text \<open>
  C9. For every \<open>index\<close> and every \<open>base\<close> of at least 2 the loop of \<open>haltonSequence\<close>
  ends and the call returns a value: \<open>index\<close> strictly decreases under the division by
  \<open>base\<close>. For \<open>base = 1\<close> and a positive \<open>index\<close> the division leaves \<open>index\<close> as
  it is and the call never returns.
\<close>

theorem haltonSequence_terminates:
  "(2 \<le> base \<longrightarrow> (\<exists>y. haltonSequence index base = Some (Inr y))) \<and>
   (0 < index \<longrightarrow> haltonSequence index 1 = None)"
  by (simp add: haltonSequence_def haltonLoop_terminates haltonLoop_base_1_diverges word_gt_0)

theorem haltonSequence_terminates_witness:
  "(2 :: uint32_t) \<le> 3 \<and> (\<exists>y. haltonSequence 5 3 = Some (Inr y)) \<and>
   (0 :: uint32_t) < 5 \<and> haltonSequence 5 1 = None"
  using haltonSequence_terminates[of 3 5] haltonSequence_terminates[of 1 5] by simp

subsection \<open>checkSystemError\<close>

text \<open>
  C2, as the source has it. \<open>checkSystemError\<close> raises exactly when \<open>errno\<close> is nonzero
  and is neither \<open>EWOULDBLOCK\<close> nor \<open>EINVAL\<close>. When it raises, the failure is a runtime
  error whose message starts with the caller's message, and \<open>errno\<close> is 0 in the state
  it leaves. When it does not raise, \<open>errno\<close> and the locale are unchanged, and the one
  effect is the line that \<open>LOG_DEBUG\<close> writes on entry.
\<close>

theorem checkSystemError_spec:
  "if errno s \<noteq> 0 \<and> errno s \<noteq> EWOULDBLOCK P \<and> errno s \<noteq> EINVAL P
   then \<exists>rest s'. checkSystemError P message s = (Inl (RuntimeError (message @ rest)), s') \<and>
          errno s' = 0
   else checkSystemError P message s =
          (Inr (), s\<lparr>log := LOG_DEBUG P (''Called checkSystemError: '' @ message) (log s)\<rparr>)"
  by (simp add: checkSystemError_def Let_def)

theorem checkSystemError_spec_witness:
  "errno (quiet 2) \<noteq> 0 \<and> errno (quiet 2) \<noteq> EWOULDBLOCK linux_debug \<and>
   errno (quiet 2) \<noteq> EINVAL linux_debug \<and>
   (\<exists>rest s'. checkSystemError linux_debug ''scene.obj'' (quiet 2) =
       (Inl (RuntimeError (''scene.obj'' @ rest)), s') \<and> errno s' = 0) \<and>
   errno (quiet 22) = EINVAL linux_debug \<and>
   checkSystemError linux_debug ''scene.obj'' (quiet 22) =
     (Inr (), (quiet 22)\<lparr>log := [''DEBUG Called checkSystemError: scene.obj'']\<rparr>)"
  using checkSystemError_spec[where P = linux_debug and message = "''scene.obj''" and s = "quiet 2"]
    checkSystemError_spec[where P = linux_debug and message = "''scene.obj''" and s = "quiet 22"]
  by (simp add: linux_debug_def quiet_def)

text \<open>
  C2, as stated, fails where it says that a call that does not raise leaves all
  observable state unchanged: with logging macros that record their lines, the call with
  \<open>errno = 0\<close> returns normally and leaves a state that differs from the one it started
  in.
\<close>

theorem checkSystemError_log_counterexample:
  "errno (quiet 0) = 0 \<and> fst (checkSystemError linux_debug ''scene.obj'' (quiet 0)) = Inr () \<and>
   snd (checkSystemError linux_debug ''scene.obj'' (quiet 0)) \<noteq> quiet 0"
  by (simp add: checkSystemError_def linux_debug_def quiet_def Let_def)

subsection \<open>incrementalAvg\<close>

lemma float_255: "float_of_uint32 255 = Finite 255"
  by (simp add: float_of_uint32_def round_float_def fl32_numerals FLT_MAX_def)

lemma scaled_range:
  assumes "0 \<le> s" "s \<le> 1"
  shows "0 \<le> fl32 (s * 255) \<and> fl32 (s * 255) \<le> 255"
proof -
  have "0 \<le> fl32 (s * 255)" using assms by (intro fl32_nonneg) simp
  moreover have "fl32 (s * 255) \<le> fl32 255" using assms by (intro fl32_mono) simp
  ultimately show ?thesis by (simp add: fl32_numerals)
qed

lemma sampler:
  assumes "0 \<le> s" "s \<le> 1"
  shows "\<exists>sc. uint32_of_float (fmul (Finite s) (float_of_uint32 255)) = Inr sc \<and>
     unat sc = scaledSample s \<and> scaledSample s \<le> 255"
proof -
  from scaled_range[OF assms] have r: "0 \<le> fl32 (s * 255)" "fl32 (s * 255) \<le> 255" by auto
  have m: "fmul (Finite s) (float_of_uint32 255) = Finite (fl32 (s * 255))"
    using r by (simp add: float_255 round_float_def FLT_MAX_def)
  have f: "0 \<le> \<lfloor>fl32 (s * 255)\<rfloor>" "\<lfloor>fl32 (s * 255)\<rfloor> \<le> 255"
    using r by (simp_all add: floor_le_iff)
  have u: "unat (word_of_int \<lfloor>fl32 (s * 255)\<rfloor> :: uint32_t) = nat \<lfloor>fl32 (s * 255)\<rfloor>"
    using f by (simp add: unat_eq_nat_uint uint_word_of_int take_bit_int_eq_self)
  have "nat \<lfloor>fl32 (s * 255)\<rfloor> \<le> 255" using f by linarith
  with m u r show ?thesis by (simp add: scaledSample_def)
qed

lemma channel_avg:
  fixes n last sc :: uint32_t
  assumes n: "1 \<le> unat n" "unat n \<le> 16843009" and l: "unat last \<le> 255" and s: "unat sc \<le> 255"
  shows "\<exists>c. uint32_div ((n - 1) * last + sc) n = Inr c \<and>
      unat (min c 255) = min 255 (((unat n - 1) * unat last + unat sc) div unat n)"
proof -
  have n0: "n \<noteq> 0" using n by (auto simp: unat_eq_0)
  have "(unat n - 1) * unat last \<le> 16843008 * 255"
    using n l by (intro mult_mono) auto
  then have bound: "(unat n - 1) * unat last + unat sc < 2 ^ 32" using s by simp
  have u1: "unat (n - 1) = unat n - 1" using n by (simp add: unat_sub word_le_nat_alt)
  have "unat ((n - 1) * last + sc) = (unat n - 1) * unat last + unat sc"
    using bound u1 by (simp add: unat_word_ariths)
  then have "unat (((n - 1) * last + sc) div n) = ((unat n - 1) * unat last + unat sc) div unat n"
    by (simp add: unat_div)
  moreover have "unat (min c 255) = min 255 (unat c)" for c :: uint32_t
    by (simp add: min_def word_le_nat_alt)
  ultimately show ?thesis using n0 by (simp add: uint32_div_def)
qed

lemma last_le: "unat ((w::uint32_t) AND 0xFF) \<le> 255"
  using word_and_le1[of w "0xFF"] by (simp add: word_le_nat_alt)

lemma byte_take_bit: "(w::uint32_t) \<le> 255 \<Longrightarrow> take_bit 8 w = w"
proof -
  assume "w \<le> 255"
  then have "w < 2 ^ 8" by (simp add: word_le_nat_alt word_less_nat_alt)
  then have "w AND mask 8 = w" by (rule less_mask_eq)
  then show ?thesis by (simp add: take_bit_eq_mask)
qed

lemma min_255_take_bit: "take_bit 8 (min (c::uint32_t) 255) = min c 255"
  by (rule byte_take_bit) simp

lemma byte_mask: "(0xFF :: uint32_t) = mask 8"
  by (simp add: mask_eq_exp_minus_1)

lemma alpha_mask: "(0xFF000000 :: uint32_t) = push_bit 24 (mask 8)"
  by (simp add: mask_eq_exp_minus_1)

lemma pack_red:
  fixes r g b :: uint32_t
  assumes "take_bit 8 r = r"
  shows "(0xFF000000 OR push_bit 16 b OR push_bit 8 g OR r) AND 0xFF = r"
  apply (subst (2) assms[symmetric])
  unfolding byte_mask alpha_mask
  apply (rule bit_eqI)
  apply (auto simp add: bit_simps)
  done

lemma pack_green:
  fixes r g b :: uint32_t
  assumes "take_bit 8 r = r" "take_bit 8 g = g"
  shows "drop_bit 8 (0xFF000000 OR push_bit 16 b OR push_bit 8 g OR r) AND 0xFF = g"
  apply (subst (2) assms(2)[symmetric])
  apply (subst assms(1)[symmetric])
  unfolding byte_mask alpha_mask
  apply (rule bit_eqI)
  apply (auto simp add: bit_simps)
  done

lemma pack_blue:
  fixes r g b :: uint32_t
  assumes "take_bit 8 r = r" "take_bit 8 g = g" "take_bit 8 b = b"
  shows "drop_bit 16 (0xFF000000 OR push_bit 16 b OR push_bit 8 g OR r) AND 0xFF = b"
  apply (subst (2) assms(3)[symmetric])
  apply (subst assms(1)[symmetric])
  apply (subst assms(2)[symmetric])
  unfolding byte_mask alpha_mask
  apply (rule bit_eqI)
  apply (auto simp add: bit_simps)
  done

lemma pack_alpha:
  fixes r g b :: uint32_t
  assumes "take_bit 8 r = r" "take_bit 8 g = g" "take_bit 8 b = b"
  shows "drop_bit 24 (0xFF000000 OR push_bit 16 b OR push_bit 8 g OR r) AND 0xFF = 0xFF"
  apply (subst assms(1)[symmetric])
  apply (subst assms(2)[symmetric])
  apply (subst assms(3)[symmetric])
  unfolding byte_mask alpha_mask
  apply (rule bit_eqI)
  apply (auto simp add: bit_simps)
  done


lemma sint_unat_small:
  assumes "1 \<le> sint (n::int32_t)" shows "unat n = nat (sint n)"
proof -
  have hi: "sint n < 2147483648" using sint_lt[of n] by simp
  have gen: "uint (word_of_int z :: int32_t) = z" if "0 \<le> z" "z < 4294967296" for z
    using that by (simp add: uint_word_of_int take_bit_int_eq_self)
  have "uint (word_of_int (sint n) :: int32_t) = sint n"
    by (rule gen) (use assms hi in linarith)+
  then have "uint n = sint n" by simp
  then show ?thesis by (simp add: unat_eq_nat_uint)
qed

text \<open>
  C3, as the source has it. For a sample with channels in [0,1], any previous packed
  colour and a sample count from 1 to 16843009, \<open>incrementalAvg\<close> returns a colour whose
  red, green and blue channels are \<open>((sampleCount - 1) * oldChannel + scaledSample) /
  sampleCount\<close> in truncating integer arithmetic, capped at 255, and whose alpha byte is
  \<open>0xFF\<close>; at a sample count of 1 each channel is the scaled sample, whatever the previous
  colour. Up to that count the 32-bit sum cannot wrap around.
\<close>

theorem incrementalAvg_spec:
  assumes s0: "0 \<le> s0" "s0 \<le> 1" and s1: "0 \<le> s1" "s1 \<le> 1" and s2: "0 \<le> s2" "s2 \<le> 1"
    and n: "1 \<le> sint numSample" "sint numSample \<le> 16843009"
  shows "\<exists>r. incrementalAvg (Finite s0, Finite s1, Finite s2) avg numSample = Inr r \<and>
    red_of r = min 255 (((nat (sint numSample) - 1) * red_of avg + scaledSample s0)
                        div nat (sint numSample)) \<and>
    green_of r = min 255 (((nat (sint numSample) - 1) * green_of avg + scaledSample s1)
                        div nat (sint numSample)) \<and>
    blue_of r = min 255 (((nat (sint numSample) - 1) * blue_of avg + scaledSample s2)
                        div nat (sint numSample)) \<and>
    alpha_of r = 255 \<and>
    (numSample = 1 \<longrightarrow>
       red_of r = scaledSample s0 \<and> green_of r = scaledSample s1 \<and> blue_of r = scaledSample s2)"
proof -
  define N where "N = nat (sint numSample)"
  have un: "unat numSample = N" using n(1) by (simp add: N_def sint_unat_small)
  have N: "1 \<le> unat numSample" "unat numSample \<le> 16843009" using n un by (simp_all add: N_def)
  obtain sc0 where sc0: "uint32_of_float (fmul (Finite s0) (float_of_uint32 255)) = Inr sc0"
    "unat sc0 = scaledSample s0" "scaledSample s0 \<le> 255" using sampler[OF s0] by blast
  obtain sc1 where sc1: "uint32_of_float (fmul (Finite s1) (float_of_uint32 255)) = Inr sc1"
    "unat sc1 = scaledSample s1" "scaledSample s1 \<le> 255" using sampler[OF s1] by blast
  obtain sc2 where sc2: "uint32_of_float (fmul (Finite s2) (float_of_uint32 255)) = Inr sc2"
    "unat sc2 = scaledSample s2" "scaledSample s2 \<le> 255" using sampler[OF s2] by blast
  obtain c0 where c0: "uint32_div ((numSample - 1) * (avg AND 0xFF) + sc0) numSample = Inr c0"
    "unat (min c0 255) = min 255 (((N - 1) * red_of avg + scaledSample s0) div N)"
    using channel_avg[OF N last_le[of avg], of sc0] sc0 un by (auto simp: red_of_def)
  obtain c1 where c1:
    "uint32_div ((numSample - 1) * (drop_bit 8 avg AND 0xFF) + sc1) numSample = Inr c1"
    "unat (min c1 255) = min 255 (((N - 1) * green_of avg + scaledSample s1) div N)"
    using channel_avg[OF N last_le[of "drop_bit 8 avg"], of sc1] sc1 un
    by (auto simp: green_of_def)
  obtain c2 where c2:
    "uint32_div ((numSample - 1) * (drop_bit 16 avg AND 0xFF) + sc2) numSample = Inr c2"
    "unat (min c2 255) = min 255 (((N - 1) * blue_of avg + scaledSample s2) div N)"
    using channel_avg[OF N last_le[of "drop_bit 16 avg"], of sc2] sc2 un
    by (auto simp: blue_of_def)
  let ?r = "0xFF000000 OR push_bit 16 (min c2 255) OR push_bit 8 (min c1 255) OR min c0 255"
  have res: "incrementalAvg (Finite s0, Finite s1, Finite s2) avg numSample = Inr ?r"
    by (simp add: bind_def Let_def sc0(1) sc1(1) sc2(1) c0(1) c1(1) c2(1))
  have r: "red_of ?r = unat (min c0 255)"
    unfolding red_of_def by (simp only: pack_red[OF min_255_take_bit])
  have g: "green_of ?r = unat (min c1 255)"
    unfolding green_of_def by (simp only: pack_green[OF min_255_take_bit min_255_take_bit])
  have b: "blue_of ?r = unat (min c2 255)"
    unfolding blue_of_def
    by (simp only: pack_blue[OF min_255_take_bit min_255_take_bit min_255_take_bit])
  have a: "alpha_of ?r = 255"
    unfolding alpha_of_def
    by (simp add: pack_alpha[OF min_255_take_bit min_255_take_bit min_255_take_bit])
  have one: "N = 1" if "numSample = 1" using that by (simp add: N_def)
  have r1: "red_of ?r = scaledSample s0" if "numSample = 1"
    using one[OF that] r c0(2) sc0(3) by simp
  have g1: "green_of ?r = scaledSample s1" if "numSample = 1"
    using one[OF that] g c1(2) sc1(3) by simp
  have b1: "blue_of ?r = scaledSample s2" if "numSample = 1"
    using one[OF that] b c2(2) sc2(3) by simp
  show ?thesis
    unfolding N_def[symmetric]
    apply (rule exI[of _ ?r])
    apply (intro conjI impI)
    apply (rule res)
    apply (simp only: r c0(2))
    apply (simp only: g c1(2))
    apply (simp only: b c2(2))
    apply (rule a)
    apply (erule r1)
    apply (erule g1)
    apply (erule b1)
    done
qed

theorem incrementalAvg_spec_witness:
  "(0::real) \<le> 1 \<and> (1::real) \<le> 1 \<and> (0::real) \<le> 1 / 2 \<and> (1::real) / 2 \<le> 1 \<and>
   (0::real) \<le> 0 \<and> (0::real) \<le> 1 \<and>
   1 \<le> sint (1::int32_t) \<and> sint (1::int32_t) \<le> 16843009 \<and>
   (\<exists>r. incrementalAvg (Finite 1, Finite (1 / 2), Finite 0) 0x12345678 1 = Inr r \<and>
        red_of r = 255 \<and> green_of r = 127 \<and> blue_of r = 0 \<and> alpha_of r = 255)"
  using incrementalAvg_spec[of 1 "1 / 2" 0 1 "0x12345678"]
  by (auto simp add: scaledSample_def fl32_def ulp_def binade_def ilog2_def rne_def
      compute_bitlen simp del: incrementalAvg.simps)

text \<open>
  C3, as stated for every sample count, fails when the unsigned 32-bit sum wraps around:
  at 16843010 samples, a white average and a white sample give black, where the formula
  gives 255.
\<close>

theorem incrementalAvg_overflow_counterexample:
  "1 \<le> sint (16843010::int32_t) \<and>
   incrementalAvg (Finite 1, Finite 1, Finite 1) (- 1) 16843010 = Inr 0xFF000000 \<and>
   red_of 0xFF000000 = 0 \<and>
   min 255 (((nat (sint (16843010::int32_t)) - 1) * red_of (- 1) + scaledSample 1)
            div nat (sint (16843010::int32_t))) = 255"
  by (simp add: bind_def uint32_div_def red_of_def scaledSample_def float_eval
      mask_eq_exp_minus_1)

lemma incrementalAvg_example:
  "incrementalAvg (Finite 1, Finite (1 / 2), Finite 0) 0xFF0000FF 2 = Inr 0xFF003FFF"
  by (simp add: bind_def uint32_div_def float_eval)

subsection \<open>Rounded results\<close>

lemma FLT_MAX_pos: "0 < FLT_MAX" by (simp add: FLT_MAX_def)

lemma round_float_Finite: "\<bar>fl32 x\<bar> \<le> FLT_MAX \<Longrightarrow> round_float x = Finite (fl32 x)"
  by (auto simp add: round_float_def Let_def)

lemma round_float_bounded:
  assumes "\<bar>x\<bar> \<le> \<bar>y\<bar>" "is_float32 y"
  shows "round_float x = Finite (fl32 x)"
proof -
  have "\<bar>fl32 x\<bar> = fl32 \<bar>x\<bar>" by (rule fl32_abs)
  also have "\<dots> \<le> fl32 \<bar>y\<bar>" using assms(1) by (rule fl32_mono)
  also have "\<dots> = \<bar>fl32 y\<bar>" by (simp add: fl32_abs)
  also have "\<dots> \<le> FLT_MAX" using assms(2) by (simp add: is_float32_def)
  finally show ?thesis by (rule round_float_Finite)
qed

lemma round_float_exact: "is_float32 x \<Longrightarrow> round_float x = Finite x"
  using round_float_bounded[of x x] by (simp add: is_float32_def)

lemma round_float_0: "round_float 0 = Finite 0"
  by (simp add: round_float_def fl32_0 FLT_MAX_def)

lemma round_float_1: "round_float 1 = Finite 1"
  by (simp add: round_float_def fl32_numerals FLT_MAX_def)

lemma std_max_Finite: "std_max (Finite a) (Finite b) = Finite (max a b)"
  by (simp add: std_max_def max_def)


subsection \<open>normalize\<close>

text \<open>
  C8. For every colour of three finite floats, \<open>normalize\<close> returns the colour with each
  component divided (a float division) by the maximum component when that maximum is
  greater than 1, and the colour unchanged otherwise. No quotient overflows.
\<close>

theorem normalize_spec:
  assumes "is_float32 c0" "is_float32 c1" "is_float32 c2"
  shows "normalize (Finite c0, Finite c1, Finite c2) =
     (if 1 < Max {c0, c1, c2}
      then (Finite (fl32 (c0 / Max {c0, c1, c2})), Finite (fl32 (c1 / Max {c0, c1, c2})),
            Finite (fl32 (c2 / Max {c0, c1, c2})))
      else (Finite c0, Finite c1, Finite c2))"
proof -
  define m where "m = Max {c0, c1, c2}"
  have m: "m = max (max c0 c1) c2" by (simp add: m_def max.commute max.left_commute)
  show ?thesis
  proof (cases "1 < m")
    case True
    have d: "round_float (c / m) = Finite (fl32 (c / m))" if "is_float32 c" for c
    proof -
      have "1 * \<bar>c\<bar> \<le> m * \<bar>c\<bar>" by (rule mult_right_mono) (use True in simp_all)
      then have "\<bar>c / m\<bar> \<le> \<bar>c\<bar>" using True by (simp add: field_simps)
      then show ?thesis using that by (rule round_float_bounded)
    qed
    show ?thesis
      using True assms unfolding m_def[symmetric]
      by (simp add: std_max_Finite m[symmetric] d)
  next
    case False
    then show ?thesis unfolding m_def[symmetric] by (simp add: std_max_Finite m[symmetric])
  qed
qed

lemma is_float32_examples:
  "is_float32 2" "is_float32 1" "is_float32 (1 / 2)"
  by (simp_all add: is_float32_def fl32_def ulp_def binade_def ilog2_def rne_def compute_bitlen FLT_MAX_def)

theorem normalize_spec_witness:
  "is_float32 2 \<and> is_float32 1 \<and> is_float32 (1 / 2) \<and>
   normalize (Finite 2, Finite 1, Finite (1 / 2)) = (Finite 1, Finite (1 / 2), Finite (1 / 4)) \<and>
   is_float32 (fl32 (3 / 10)) \<and> is_float32 (fl32 (1 / 10)) \<and>
   normalize (Finite (1 / 2), Finite (fl32 (3 / 10)), Finite (fl32 (1 / 10))) =
     (Finite (1 / 2), Finite (fl32 (3 / 10)), Finite (fl32 (1 / 10)))"
  using normalize_spec[of 2 1 "1 / 2"] normalize_spec[of "1 / 2" "fl32 (3 / 10)" "fl32 (1 / 10)"]
  by (simp add: is_float32_def fl32_def ulp_def binade_def ilog2_def rne_def compute_bitlen FLT_MAX_def
      del: normalize.simps)

subsection \<open>equal\<close>

lemma equal_Finite:
  "equal (Finite eps) (Finite x) (Finite y) =
     (case round_float (x - y) of Finite z \<Rightarrow> \<bar>z\<bar> < eps | _ \<Rightarrow> False)"
  by (simp add: equal_def fsub_def split: float.splits)

lemma fl32_fixed_multiple:
  assumes "fl32 a = a" "a \<noteq> 0"
  shows "a = real_of_int (rne (a / ulp a)) * ulp a"
  using assms by (simp add: fl32_def)

lemma ulp_ratio:
  assumes "binade a \<le> binade b"
  shows "ulp b = 2 ^ nat (binade b - binade a) * ulp a"
proof -
  define m where "m = nat (binade b - binade a)"
  have e: "binade b - 23 = int m + (binade a - 23)" using assms by (simp add: m_def)
  have "(2::real) powi (int m + (binade a - 23)) = 2 powi (int m) * 2 powi (binade a - 23)"
    by (rule powi_split)
  then show ?thesis unfolding ulp_def e m_def[symmetric] by simp
qed

text \<open>Two floats within a factor of two of each other have an exact difference.\<close>

lemma fl32_difference_exact:
  assumes fa: "fl32 a = a" and fb: "fl32 b = b" and a: "0 < a" and ab: "a \<le> b" and ba: "b \<le> 2 * a"
  shows "fl32 (b - a) = b - a"
proof -
  define ua where "ua = ulp a"
  define ka where "ka = rne (a / ulp a)"
  define kb where "kb = rne (b / ulp b)"
  define m where "m = nat (binade b - binade a)"
  have up: "0 < ua" by (simp add: ua_def ulp_pos)
  have b0: "0 < b" using a ab by linarith
  have le: "binade a \<le> binade b" using a ab by (rule binade_mono)
  have ub: "ulp b = 2 ^ m * ua" using ulp_ratio[OF le] by (simp add: m_def ua_def)
  have ea: "a = real_of_int ka * ua"
    using fl32_fixed_multiple[OF fa] a by (simp add: ka_def ua_def)
  have eb: "b = real_of_int kb * (2 ^ m * ua)"
    using fl32_fixed_multiple[OF fb] b0 ub by (simp add: kb_def)
  define K where "K = kb * 2 ^ m - ka"
  have d: "b - a = real_of_int K * ua"
    by (subst eb, subst ea) (simp add: K_def algebra_simps)
  have "0 \<le> real_of_int K * ua" using ab d by linarith
  then have K0: "0 \<le> K" using up by (simp add: zero_le_mult_iff)
  have "real_of_int K * ua \<le> real_of_int ka * ua" using ba d ea by linarith
  then have "real_of_int K \<le> real_of_int ka" using up by simp
  then have Kka: "K \<le> ka" by linarith
  have "a / ua < 16777216" using quot_lt[OF a] by (simp add: ua_def)
  moreover have "a / ua = real_of_int ka" using ea up by simp
  ultimately have "ka < 16777216" by linarith
  with K0 Kka have Kb: "\<bar>K\<bar> \<le> 16777216" by linarith
  have jb: "- 149 \<le> binade a - 23" by (simp add: binade_def)
  have "fl32 (real_of_int K * 2 powi (binade a - 23)) = real_of_int K * 2 powi (binade a - 23)"
    using Kb jb by (rule fl32_grid)
  then show ?thesis using d by (simp add: ua_def ulp_def)
qed


text \<open>
  The float sum \<open>y\<close> of a float \<open>x\<close> and \<open>2 * eps\<close>: when it stays within \<open>eps\<close> of \<open>x\<close>, the
  difference of the two is exact.
\<close>

lemma sum_difference_exact:
  assumes e: "0 < eps" and fe: "fl32 eps = eps" and fx: "fl32 x = x"
    and y: "y = fl32 (x + 2 * eps)" and near: "\<bar>x - y\<bar> < eps"
  shows "fl32 (x - y) = x - y"
proof -
  have fy: "fl32 y = y" by (simp add: y fl32_idem)
  have xy: "x \<le> y" using fl32_mono[of x "x + 2 * eps"] e fx by (simp add: y)
  have f2: "fl32 (2 * eps) = 2 * eps" using fl32_double[of eps] fe by simp
  consider "0 < x" | "x \<le> 0" "0 \<le> x + 2 * eps" | "x + 2 * eps < 0" by linarith
  then show ?thesis
  proof cases
    case 1
    have "eps \<le> x"
    proof (rule ccontr)
      assume "\<not> eps \<le> x"
      have "fl32 (2 * eps) \<le> y" unfolding y using 1 by (intro fl32_mono) simp
      with f2 \<open>\<not> eps \<le> x\<close> near show False by linarith
    qed
    then have "y \<le> 2 * x" using near by linarith
    with fx fy 1 xy have "fl32 (y - x) = y - x" by (intro fl32_difference_exact)
    then show ?thesis using fl32_minus[of "y - x"] by simp
  next
    case 2
    have "fl32 0 \<le> fl32 (x + 2 * eps)" using 2 by (intro fl32_mono) simp
    then have "0 \<le> y" by (simp add: y fl32_0)
    with near have "eps \<le> x + 2 * eps" by linarith
    then have "fl32 eps \<le> y" unfolding y by (rule fl32_mono)
    with fe 2 near show ?thesis by linarith
  next
    case 3
    have y0: "y \<le> 0"
    proof -
      have "fl32 (x + 2 * eps) \<le> fl32 0" using 3 by (intro fl32_mono) simp
      then show ?thesis by (simp add: y fl32_0)
    qed
    have fx': "fl32 (- x) = - x" and fy': "fl32 (- y) = - y" using fx fy by (simp_all add: fl32_minus)
    have ypos: "0 < - y" using near 3 e by linarith
    have le: "- y \<le> - x" using xy by simp
    have half: "- x \<le> 2 * (- y)" using near 3 by linarith
    from fy' fx' ypos le half have "fl32 (- x - (- y)) = - x - (- y)"
      by (rule fl32_difference_exact)
    then have "fl32 (y - x) = y - x" by (simp add: algebra_simps)
    then show ?thesis using fl32_minus[of "y - x"] by simp
  qed
qed

lemma equal_of_sum:
  assumes e: "0 < eps" and fe: "fl32 eps = eps" and fx: "fl32 x = x"
    and s: "fadd (Finite x) (fmul (Finite 2) (Finite eps)) = Finite y"
  shows "equal (Finite eps) (Finite x) (Finite y) \<longleftrightarrow> \<bar>x - y\<bar> < eps"
proof -
  have f2: "fl32 (2 * eps) = 2 * eps" using fl32_double[of eps] fe by simp
  have small: "2 * eps \<le> FLT_MAX"
  proof (rule ccontr)
    assume "\<not> 2 * eps \<le> FLT_MAX"
    then have "round_float (2 * eps) = PInf" by (simp add: round_float_def f2)
    with s show False by simp
  qed
  then have m: "round_float (2 * eps) = Finite (2 * eps)"
    using e f2 by (simp add: round_float_def)
  have y: "y = fl32 (x + 2 * eps)"
    using s by (simp add: f2 round_float_def Let_def split: if_splits)
  show ?thesis
  proof (cases "\<bar>x - y\<bar> < eps")
    case True
    have ex: "fl32 (x - y) = x - y" using e fe fx y True by (rule sum_difference_exact)
    have "\<bar>x - y\<bar> \<le> FLT_MAX" using True small e by linarith
    then have "round_float (x - y) = Finite (x - y)"
      using ex by (simp add: round_float_def abs_le_iff Let_def)
    then show ?thesis using True by (simp add: equal_Finite)
  next
    case False
    have "eps = fl32 eps" using fe by simp
    also have "\<dots> \<le> fl32 \<bar>x - y\<bar>" using False by (intro fl32_mono) simp
    also have "\<dots> = \<bar>fl32 (x - y)\<bar>" by (simp add: fl32_abs)
    finally have "\<not> \<bar>fl32 (x - y)\<bar> < eps" by simp
    then have "\<not> equal (Finite eps) (Finite x) (Finite y)"
      by (simp add: equal_Finite round_float_def Let_def)
    with False show ?thesis by simp
  qed
qed

text \<open>
  C7, as the source has it. For a positive float \<open>Epsilon\<close>, \<open>equal(x, x)\<close> is true for
  every finite \<open>x\<close>, and \<open>equal(x, y)\<close> is false for all finite \<open>x\<close> and \<open>y\<close> that differ
  by at least \<open>Epsilon\<close>. For a float \<open>x\<close> and the float sum \<open>s\<close> of \<open>x\<close> and \<open>2 * Epsilon\<close>: when
  \<open>s\<close> is finite, \<open>equal(x, s)\<close> is false exactly when \<open>s\<close> differs from \<open>x\<close> by at least
  \<open>Epsilon\<close>, and true otherwise; when \<open>s\<close> has overflowed to infinity, \<open>equal(x, s)\<close> is
  false.
\<close>

theorem equal_spec:
  assumes "0 < eps" "fl32 eps = eps"
  shows "equal (Finite eps) (Finite x) (Finite x) \<and>
         (eps \<le> \<bar>x - y\<bar> \<longrightarrow> \<not> equal (Finite eps) (Finite x) (Finite y)) \<and>
         (fl32 x = x \<longrightarrow> fadd (Finite x) (fmul (Finite 2) (Finite eps)) = Finite z \<longrightarrow>
            (equal (Finite eps) (Finite x) (Finite z) \<longleftrightarrow> \<bar>x - z\<bar> < eps)) \<and>
         \<not> equal (Finite eps) (Finite x) PInf"
proof (intro conjI impI)
  show "equal (Finite eps) (Finite x) (Finite x)"
    using assms(1) by (simp add: equal_Finite round_float_0)
  show "\<not> equal (Finite eps) (Finite x) (Finite y)" if far: "eps \<le> \<bar>x - y\<bar>"
  proof -
    have "eps = fl32 eps" using assms(2) by simp
    also have "\<dots> \<le> fl32 \<bar>x - y\<bar>" using far by (rule fl32_mono)
    also have "\<dots> = \<bar>fl32 (x - y)\<bar>" by (simp add: fl32_abs)
    finally have "\<not> \<bar>fl32 (x - y)\<bar> < eps" by simp
    then show ?thesis by (simp add: equal_Finite round_float_def Let_def)
  qed
  show "equal (Finite eps) (Finite x) (Finite z) \<longleftrightarrow> \<bar>x - z\<bar> < eps"
    if "fl32 x = x" "fadd (Finite x) (fmul (Finite 2) (Finite eps)) = Finite z"
    using assms that by (rule equal_of_sum)
  show "\<not> equal (Finite eps) (Finite x) PInf"
    by (simp add: equal_def fsub_def)
qed

theorem equal_spec_witness:
  "(0::real) < 8796093 / 8796093022208 \<and> fl32 (8796093 / 8796093022208) = 8796093 / 8796093022208 \<and>
   equal (Finite (8796093 / 8796093022208)) (Finite 1) (Finite 1) \<and>
   fl32 1 = 1 \<and>
   fadd (Finite 1) (fmul (Finite 2) (Finite (8796093 / 8796093022208)))
     = Finite (8388625 / 8388608) \<and>
   (8796093 / 8796093022208 :: real) \<le> \<bar>1 - 8388625 / 8388608\<bar> \<and>
   \<not> equal (Finite (8796093 / 8796093022208)) (Finite 1) (Finite (8388625 / 8388608)) \<and>
   fl32 100 = 100 \<and>
   fadd (Finite 100) (fmul (Finite 2) (Finite (8796093 / 8796093022208))) = Finite 100 \<and>
   equal (Finite (8796093 / 8796093022208)) (Finite 100) (Finite 100)"
  using equal_spec[where eps = "8796093 / 8796093022208" and x = 1
      and y = "8388625 / 8388608" and z = "8388625 / 8388608"]
    equal_spec[where eps = "8796093 / 8796093022208" and x = 100 and y = 0 and z = 100]
  by (simp add: float_eval)

text \<open>
  C7, as stated, fails in its second half: the sum \<open>x + 2 * Epsilon\<close> is a float sum, and
  for an \<open>x\<close> that is large against \<open>Epsilon\<close> it rounds back to \<open>x\<close>. With \<open>Epsilon\<close>
  the float nearest to \<open>10\<^sup>-\<^sup>6\<close> and \<open>x = 100\<close>, \<open>equal(x, x + 2 * Epsilon)\<close> is true. The
  lemma after it shows the same at \<open>x = 2\<^sup>2\<^sup>5\<close> for every \<open>Epsilon\<close> up to 1.
\<close>

theorem equal_absorbed_counterexample:
  "equal (Finite (8796093 / 8796093022208)) (Finite 100)
     (fadd (Finite 100) (fmul (Finite 2) (Finite (8796093 / 8796093022208))))"
  by (simp add: equal_def fsub_def float_eval)

lemma fl32_absorbs:
  assumes "0 \<le> t" "t \<le> 2" shows "fl32 (33554432 + t) = 33554432"
proof -
  have lo: "fl32 33554432 = 33554432" by (simp add: float_eval)
  have hi: "fl32 (33554432 + 2) = 33554432" by (simp add: float_eval)
  have "fl32 33554432 \<le> fl32 (33554432 + t)" using assms by (intro fl32_mono) simp
  moreover have "fl32 (33554432 + t) \<le> fl32 (33554432 + 2)" using assms by (intro fl32_mono) simp
  ultimately show ?thesis using lo hi by linarith
qed

lemma equal_absorbed_any_Epsilon:
  assumes "0 < eps" "eps \<le> 1"
  shows "equal (Finite eps) (Finite 33554432)
     (fadd (Finite 33554432) (fmul (Finite 2) (Finite eps)))"
proof -
  have t: "0 \<le> fl32 (2 * eps)" "fl32 (2 * eps) \<le> 2"
    using assms fl32_nonneg[of "2 * eps"] fl32_mono[of "2 * eps" 2] by (simp_all add: fl32_numerals)
  then have m: "round_float (2 * eps) = Finite (fl32 (2 * eps))"
    by (simp add: round_float_def FLT_MAX_def)
  have a: "round_float (33554432 + fl32 (2 * eps)) = Finite 33554432"
    using fl32_absorbs[OF t] by (simp add: round_float_def FLT_MAX_def)
  show ?thesis using assms by (simp add: m a equal_Finite round_float_0)
qed

subsection \<open>fresnel at normal incidence\<close>

lemma fresnel_cosi_minus_one:
  "glm_dot I N = Finite (- 1) \<Longrightarrow> fresnel_cosi I N = Finite (- 1)"
  by (simp add: fresnel_cosi_def glm_clamp_def glm_min_def glm_max_def)

lemma fl32_near_one_above: assumes "0 \<le> t" "t \<le> 1 / 33554432" shows "fl32 (1 + t) = 1"
proof -
  have hi: "fl32 (1 + 1 / 33554432) = 1" by (simp add: float_eval)
  have "fl32 1 \<le> fl32 (1 + t)" using assms by (intro fl32_mono) simp
  moreover have "fl32 (1 + t) \<le> fl32 (1 + 1 / 33554432)" using assms by (intro fl32_mono) simp
  ultimately show ?thesis using hi by (simp add: fl32_numerals)
qed

lemma fl32_near_one_below: assumes "0 \<le> t" "t \<le> 1 / 67108864" shows "fl32 (1 - t) = 1"
proof -
  have lo: "fl32 (1 - 1 / 67108864) = 1" by (simp add: float_eval)
  have "fl32 (1 - t) \<le> fl32 1" using assms by (intro fl32_mono) simp
  moreover have "fl32 (1 - 1 / 67108864) \<le> fl32 (1 - t)" using assms by (intro fl32_mono) simp
  ultimately show ?thesis using lo by (simp add: fl32_numerals)
qed

lemma fl32_FLT_MAX: "fl32 FLT_MAX = FLT_MAX" "fl32 (FLT_MAX + 1) = FLT_MAX"
  by (simp_all add: float_eval)

text \<open>The two quotients of the Fresnel formulas at normal incidence.\<close>

lemma normal_quotient:
  assumes "0 < n" "is_float32 n"
  defines "r \<equiv> fl32 (fl32 (n - 1) / fl32 (n + 1))"
  shows "fdiv (fsub (Finite n) (Finite 1)) (fadd (Finite n) (Finite 1)) = Finite r \<and>
         fdiv (fsub (Finite 1) (Finite n)) (fadd (Finite 1) (Finite n)) = Finite (- r) \<and>
         \<bar>r\<bar> \<le> 1"
proof -
  define a where "a = fl32 (n - 1)"
  define b where "b = fl32 (n + 1)"
  have nf: "fl32 n = n" "n \<le> FLT_MAX" using assms by (simp_all add: is_float32_def)
  have a_lo: "- 1 \<le> a"
    using fl32_mono[of "- 1" "n - 1"] assms(1) by (simp add: a_def fl32_minus fl32_numerals)
  have a_hi: "a \<le> n" using fl32_mono[of "n - 1" n] nf by (simp add: a_def)
  have b_lo: "1 \<le> b" using fl32_mono[of 1 "n + 1"] assms(1) by (simp add: b_def fl32_numerals)
  have b_hi: "b \<le> FLT_MAX"
    using fl32_mono[of "n + 1" "FLT_MAX + 1"] nf by (simp add: b_def fl32_FLT_MAX)
  have ab: "a \<le> b" using fl32_mono[of "n - 1" "n + 1"] by (simp add: a_def b_def)
  have ab': "- a \<le> b"
    using fl32_mono[of "1 - n" "n + 1"] assms(1) fl32_minus[of "n - 1"] by (simp add: a_def b_def)
  have ra: "round_float (n - 1) = Finite a"
    using a_lo a_hi nf FLT_MAX_pos by (intro round_float_Finite[of "n - 1", folded a_def]) (simp add: abs_le_iff FLT_MAX_def)
  have ra': "round_float (1 - n) = Finite (- a)"
    using ra fl32_minus[of "n - 1"] by (simp add: round_float_def Let_def a_def split: if_splits)
  have rb: "round_float (n + 1) = Finite b"
    using b_lo b_hi by (intro round_float_Finite[of "n + 1", folded b_def]) simp
  have rb': "round_float (1 + n) = Finite b" using rb by (simp add: add.commute)
  have q: "\<bar>a / b\<bar> \<le> 1" using ab ab' b_lo by (simp add: abs_le_iff field_simps)
  have r_def: "r = fl32 (a / b)" by (simp add: r_def a_def b_def)
  have "\<bar>r\<bar> = fl32 \<bar>a / b\<bar>" by (simp add: r_def fl32_abs)
  also have "\<dots> \<le> fl32 1" using q by (rule fl32_mono)
  finally have r1: "\<bar>r\<bar> \<le> 1" by (simp add: fl32_numerals)
  have rq: "round_float (a / b) = Finite r"
    using r1 by (intro round_float_Finite[of "a / b", folded r_def]) (simp add: FLT_MAX_def)
  have rq': "round_float (- (a / b)) = Finite (- r)"
    using r1 fl32_minus[of "a / b"]
    by (intro round_float_Finite[of "- (a / b)", simplified fl32_minus, folded r_def, simplified])
       (simp add: FLT_MAX_def)
  have b0: "b \<noteq> 0" using b_lo by simp
  show ?thesis
    using b0 r1 by (simp add: fsub_def ra ra' rb rb' rq rq')
qed


lemma fsqrt_0_1: "fsqrt (Finite 0) = Finite 0" "fsqrt (Finite 1) = Finite 1"
  by (simp_all add: round_float_0 round_float_1)

lemma round_float_m1: "round_float (- 1) = Finite (- 1)"
  by (simp add: round_float_def fl32_minus fl32_numerals FLT_MAX_def)

lemma round_float_2: "round_float 2 = Finite 2"
  by (simp add: round_float_def fl32_numerals FLT_MAX_def)

text \<open>The head of \<open>fresnel_kr\<close> at \<open>cosi = -1\<close>: \<open>sint\<close> is \<open>1 / ior * 0\<close>.\<close>

lemma fresnel_kr_minus_one:
  "fresnel_kr (Finite (- 1)) ior =
     (let sint = fmul (fdiv (Finite 1) ior) (Finite 0)
      in if fle (Finite 1) sint then Finite 1
         else
           let cost = fsqrt (std_max (Finite 0) (fsub (Finite 1) (fmul sint sint)));
               Rs = fdiv (fsub (fmul ior (Finite 1)) (fmul (Finite 1) cost))
                         (fadd (fmul ior (Finite 1)) (fmul (Finite 1) cost));
               Rp = fdiv (fsub (fmul (Finite 1) (Finite 1)) (fmul ior cost))
                         (fadd (fmul (Finite 1) (Finite 1)) (fmul ior cost))
           in fdiv (fadd (fmul Rs Rs) (fmul Rp Rp)) (Finite 2))"
  by (simp add: fresnel_kr_def Let_def round_float_1 round_float_0 fsub_def std_max_def)

lemma fresnel_kr_regular:
  assumes "0 < n" "is_float32 n" "round_float (1 / n) = Finite z"
  shows "fresnel_kr (Finite (- 1)) (Finite n) =
     (let q = fdiv (fsub (Finite n) (Finite 1)) (fadd (Finite n) (Finite 1)) in fmul q q)"
proof -
  define r where "r = fl32 (fl32 (n - 1) / fl32 (n + 1))"
  have r: "fdiv (fsub (Finite n) (Finite 1)) (fadd (Finite n) (Finite 1)) = Finite r"
    "fdiv (fsub (Finite 1) (Finite n)) (fadd (Finite 1) (Finite n)) = Finite (- r)" "\<bar>r\<bar> \<le> 1"
    using normal_quotient[OF assms(1,2)] by (simp_all add: r_def)
  define s where "s = fl32 (r * r)"
  have "0 \<le> r * r" by simp
  then have s0: "0 \<le> s" unfolding s_def by (rule fl32_nonneg)
  have "r * r \<le> 1" using r(3) by (simp add: abs_le_square_iff[of r 1, simplified] power2_eq_square)
  then have "s \<le> fl32 1" unfolding s_def by (rule fl32_mono)
  then have s1: "s \<le> 1" by (simp add: fl32_numerals)
  have rs: "round_float (r * r) = Finite s"
    using s0 s1 by (intro round_float_Finite[of "r * r", folded s_def]) (simp add: FLT_MAX_def)
  have d: "fl32 (2 * s) = 2 * s" using fl32_double[of "r * r"] by (simp add: s_def)
  have rss: "round_float (2 * s) = Finite (2 * s)"
    using s0 s1 d by (simp add: round_float_def FLT_MAX_def)
  have i: "fl32 s = s" by (simp add: s_def fl32_idem)
  have rs': "round_float s = Finite s" using s0 s1 i by (simp add: round_float_def FLT_MAX_def)
  have n1: "round_float n = Finite n"
    using assms(2) by (rule round_float_exact)
  have sint: "fmul (fdiv (Finite 1) (Finite n)) (Finite 0) = Finite 0"
    using assms(1,3) by (simp add: round_float_0)
  show ?thesis
    unfolding fresnel_kr_minus_one sint
    using r(1,2) by (simp add: Let_def round_float_0 round_float_1 fsub_def std_max_def n1 rs rss rs')
qed


lemma fresnel_kr_overflow:
  assumes "0 < n" "is_float32 n" "round_float (1 / n) = PInf"
  shows "fresnel_kr (Finite (- 1)) (Finite n) =
     (let q = fdiv (fsub (Finite n) (Finite 1)) (fadd (Finite n) (Finite 1)) in fmul q q)"
proof -
  have big: "FLT_MAX < 1 / n"
  proof (rule ccontr)
    assume "\<not> FLT_MAX < 1 / n"
    then have "fl32 (1 / n) \<le> fl32 FLT_MAX" by (intro fl32_mono) simp
    then show False using assms(3) by (simp add: round_float_def Let_def fl32_FLT_MAX split: if_splits)
  qed
  have "67108864 < 1 / n" using big by (simp add: FLT_MAX_def)
  then have small: "n < 1 / 67108864" using assms(1) by (simp add: field_simps)
  have up: "fl32 (1 + n) = 1" using assms(1) small by (intro fl32_near_one_above) simp_all
  have down: "fl32 (1 - n) = 1" using assms(1) small by (intro fl32_near_one_below) simp_all
  have down': "fl32 (n - 1) = - 1" using down fl32_minus[of "1 - n"] by simp
  have r1: "round_float (n + 1) = Finite 1" using up by (simp add: round_float_def FLT_MAX_def add.commute)
  have r2: "round_float (n - 1) = Finite (- 1)" using down' by (simp add: round_float_def FLT_MAX_def)
  have rn: "round_float n = Finite n" using assms(2) by (rule round_float_exact)
  have sint: "fmul (fdiv (Finite 1) (Finite n)) (Finite 0) = NaN"
    using assms(1,3) by simp
  show ?thesis
    unfolding fresnel_kr_minus_one sint
    using assms(1)
    by (simp add: Let_def round_float_0 round_float_1 round_float_m1 round_float_2 fsub_def
        std_max_def rn r1 r2)
qed

text \<open>The rounded formula against the exact one.\<close>

lemma formula_error:
  assumes "0 < n"
  defines "r \<equiv> fl32 (fl32 (n - 1) / fl32 (n + 1))"
  shows "\<bar>fl32 (r * r) - ((n - 1) / (n + 1))\<^sup>2\<bar> \<le> 1 / 1048576"
proof -
  define a where "a = fl32 (n - 1)"
  define b where "b = fl32 (n + 1)"
  define t where "t = (n - 1) / (n + 1)"
  define u :: real where "u = 1 / 16777216"
  define e :: real where "e = 1 / 1073741824"
  have b1: "1 \<le> b" using fl32_mono[of 1 "n + 1"] assms(1) by (simp add: b_def fl32_numerals)
  have ab: "a \<le> b" using fl32_mono[of "n - 1" "n + 1"] by (simp add: a_def b_def)
  have ab': "- a \<le> b"
    using fl32_mono[of "1 - n" "n + 1"] assms(1) fl32_minus[of "n - 1"] by (simp add: a_def b_def)
  have q1: "\<bar>a / b\<bar> \<le> 1" using ab ab' b1 by (simp add: abs_le_iff field_simps)
  have t1: "\<bar>t\<bar> \<le> 1" using assms(1) by (simp add: t_def abs_le_iff field_simps)
  have eb: "\<bar>b - (n + 1)\<bar> \<le> u * (n + 1)"
    using fl32_rel[of "n + 1"] assms(1) by (simp add: b_def u_def power_int_minus)
  have ea: "\<bar>a - (n - 1)\<bar> \<le> u * \<bar>n - 1\<bar> + e"
    using fl32_err[of "n - 1"] by (simp add: a_def u_def e_def)
  have nn: "\<bar>n - 1\<bar> \<le> n + 1" using assms(1) by simp
  have "a / b - t = ((a - (n - 1)) * (n + 1) - (n - 1) * (b - (n + 1))) / (b * (n + 1))"
    using b1 assms(1) by (simp add: t_def field_simps)
  then have "\<bar>a / b - t\<bar> = \<bar>(a - (n - 1)) * (n + 1) - (n - 1) * (b - (n + 1))\<bar> / (b * (n + 1))"
    using b1 assms(1) by (simp add: abs_mult)
  also have "\<dots> \<le> (\<bar>a - (n - 1)\<bar> * (n + 1) + \<bar>n - 1\<bar> * \<bar>b - (n + 1)\<bar>) / (b * (n + 1))"
  proof (rule divide_right_mono)
    have "\<bar>(a - (n - 1)) * (n + 1) - (n - 1) * (b - (n + 1))\<bar>
          \<le> \<bar>(a - (n - 1)) * (n + 1)\<bar> + \<bar>(n - 1) * (b - (n + 1))\<bar>" by (rule abs_triangle_ineq4)
    then show "\<bar>(a - (n - 1)) * (n + 1) - (n - 1) * (b - (n + 1))\<bar>
          \<le> \<bar>a - (n - 1)\<bar> * (n + 1) + \<bar>n - 1\<bar> * \<bar>b - (n + 1)\<bar>"
      using assms(1) by (simp add: abs_mult)
    show "0 \<le> b * (n + 1)" using b1 assms(1) by simp
  qed
  also have "\<dots> \<le> ((u * \<bar>n - 1\<bar> + e) * (n + 1) + \<bar>n - 1\<bar> * (u * (n + 1))) / (b * (n + 1))"
  proof (rule divide_right_mono)
    have "\<bar>a - (n - 1)\<bar> * (n + 1) \<le> (u * \<bar>n - 1\<bar> + e) * (n + 1)"
      using ea assms(1) by (intro mult_right_mono) simp_all
    moreover have "\<bar>n - 1\<bar> * \<bar>b - (n + 1)\<bar> \<le> \<bar>n - 1\<bar> * (u * (n + 1))"
      using eb by (intro mult_left_mono) simp_all
    ultimately show "\<bar>a - (n - 1)\<bar> * (n + 1) + \<bar>n - 1\<bar> * \<bar>b - (n + 1)\<bar>
        \<le> (u * \<bar>n - 1\<bar> + e) * (n + 1) + \<bar>n - 1\<bar> * (u * (n + 1))" by linarith
    show "0 \<le> b * (n + 1)" using b1 assms(1) by simp
  qed
  also have "\<dots> = ((2 * u * \<bar>n - 1\<bar> + e) * (n + 1)) / (b * (n + 1))"
    by (simp add: algebra_simps)
  also have "\<dots> = (2 * u * \<bar>n - 1\<bar> + e) / b"
    using assms(1) by simp
  also have "\<dots> \<le> (2 * u * (n + 1) + e) / b"
    using nn b1 by (intro divide_right_mono) (simp_all add: u_def)
  finally have d1: "\<bar>a / b - t\<bar> \<le> (2 * u * (n + 1) + e) / b" .
  have "(1 - u) * (n + 1) \<le> b" using eb by (simp add: abs_le_iff algebra_simps)
  then have nb: "n + 1 \<le> 2 * b" using assms(1) by (simp add: u_def)
  have h1: "2 * u * (n + 1) \<le> 4 * u * b" using nb by (simp add: u_def)
  have h2: "e \<le> e * b" using b1 by (simp add: e_def)
  have "(4 * u + e) * b = 4 * u * b + e * b" by (simp add: algebra_simps)
  with h1 h2 have "2 * u * (n + 1) + e \<le> (4 * u + e) * b" by linarith
  then have "(2 * u * (n + 1) + e) / b \<le> 4 * u + e" using b1 by (simp add: field_simps)
  with d1 have d2: "\<bar>a / b - t\<bar> \<le> 4 * u + e" by linarith
  have d3: "\<bar>r - a / b\<bar> \<le> u / 2"
    using fl32_err_unit[OF q1] by (simp add: r_def a_def b_def u_def)
  have d4: "\<bar>r - t\<bar> \<le> 9 / 2 * u + e" using d2 d3 by linarith
  have "\<bar>r\<bar> = fl32 \<bar>a / b\<bar>" by (simp add: r_def a_def b_def fl32_abs)
  also have "\<dots> \<le> fl32 1" using q1 by (rule fl32_mono)
  finally have r1: "\<bar>r\<bar> \<le> 1" by (simp add: fl32_numerals)
  have "r * r - t\<^sup>2 = (r - t) * (r + t)" by (simp add: power2_eq_square algebra_simps)
  then have "\<bar>r * r - t\<^sup>2\<bar> = \<bar>r - t\<bar> * \<bar>r + t\<bar>" by (simp add: abs_mult)
  also have "\<dots> \<le> (9 / 2 * u + e) * 2"
    using d4 r1 t1 by (intro mult_mono) (simp_all add: u_def e_def)
  finally have d5: "\<bar>r * r - t\<^sup>2\<bar> \<le> 9 * u + 2 * e" by simp
  have "\<bar>r\<bar> * \<bar>r\<bar> \<le> 1 * 1" using r1 by (intro mult_mono) simp_all
  then have "\<bar>r * r\<bar> \<le> 1" by (simp add: abs_mult)
  then have d6: "\<bar>fl32 (r * r) - r * r\<bar> \<le> u / 2" using fl32_err_unit by (simp add: u_def)
  have "\<bar>fl32 (r * r) - t\<^sup>2\<bar> \<le> 19 / 2 * u + 2 * e" using d5 d6 by linarith
  then show ?thesis by (simp add: t_def u_def e_def)
qed

lemma normal_formula_value:
  assumes "0 < n" "is_float32 n"
  defines "r \<equiv> fl32 (fl32 (n - 1) / fl32 (n + 1))"
  shows "(let q = fdiv (fsub (Finite n) (Finite 1)) (fadd (Finite n) (Finite 1)) in fmul q q)
     = Finite (fl32 (r * r))"
proof -
  have q: "fdiv (fsub (Finite n) (Finite 1)) (fadd (Finite n) (Finite 1)) = Finite r"
    and r1: "\<bar>r\<bar> \<le> 1"
    using normal_quotient[OF assms(1,2)] by (simp_all add: r_def)
  have "\<bar>r\<bar> * \<bar>r\<bar> \<le> 1 * 1" using r1 by (intro mult_mono) simp_all
  then have "\<bar>r * r\<bar> \<le> \<bar>1::real\<bar>" by (simp add: abs_mult)
  then have "round_float (r * r) = Finite (fl32 (r * r))"
    by (rule round_float_bounded) (simp add: is_float32_def fl32_numerals FLT_MAX_def)
  then show ?thesis unfolding Let_def q by simp
qed

lemma fresnel_kr_normal:
  assumes "glm_dot I N = Finite (- 1)" and "0 < n" and "is_float32 n"
  shows "fresnel I N (Finite n) =
     (let q = fdiv (fsub (Finite n) (Finite 1)) (fadd (Finite n) (Finite 1)) in fmul q q)"
proof -
  have c: "fresnel I N (Finite n) = fresnel_kr (Finite (- 1)) (Finite n)"
    using assms(1) by (simp add: fresnel_def fresnel_cosi_minus_one)
  have "0 \<le> fl32 (1 / n)" using assms(2) by (intro fl32_nonneg) simp
  then have "round_float (1 / n) = PInf \<or> (\<exists>z. round_float (1 / n) = Finite z)"
    using FLT_MAX_pos by (simp add: round_float_def Let_def)
  then show ?thesis
    unfolding c using fresnel_kr_regular[OF assms(2,3)] fresnel_kr_overflow[OF assms(2,3)]
    by blast
qed

text \<open>
  C5. For every finite float \<open>n > 0\<close>, \<open>fresnel\<close> at normal incidence (\<open>dot(I, N) = -1\<close>)
  returns \<open>((n - 1) / (n + 1))\<^sup>2\<close>: the value is that expression evaluated in the arithmetic
  of the program, a finite float within \<open>2\<^sup>-\<^sup>2\<^sup>0\<close> of the exact real value.
\<close>

theorem fresnel_normal_incidence:
  assumes "glm_dot I N = Finite (- 1)" and "0 < n" and "is_float32 n"
  shows "fresnel I N (Finite n) =
     (let q = fdiv (fsub (Finite n) (Finite 1)) (fadd (Finite n) (Finite 1)) in fmul q q) \<and>
     (\<exists>k. fresnel I N (Finite n) = Finite k \<and> \<bar>k - ((n - 1) / (n + 1))\<^sup>2\<bar> \<le> 1 / 1048576)"
proof
  show "fresnel I N (Finite n) =
     (let q = fdiv (fsub (Finite n) (Finite 1)) (fadd (Finite n) (Finite 1)) in fmul q q)"
    using assms by (rule fresnel_kr_normal)
  then have "fresnel I N (Finite n) =
      Finite (fl32 (fl32 (fl32 (n - 1) / fl32 (n + 1)) * fl32 (fl32 (n - 1) / fl32 (n + 1))))"
    using normal_formula_value[OF assms(2,3)] by simp
  then show "\<exists>k. fresnel I N (Finite n) = Finite k \<and>
      \<bar>k - ((n - 1) / (n + 1))\<^sup>2\<bar> \<le> 1 / 1048576"
    using formula_error[OF assms(2)] by simp
qed

theorem fresnel_normal_incidence_witness:
  "glm_dot (Finite 0, Finite 0, Finite (- 1)) (Finite 0, Finite 0, Finite 1) = Finite (- 1) \<and>
   (0::real) < 3 \<and> is_float32 3 \<and>
   fresnel (Finite 0, Finite 0, Finite (- 1)) (Finite 0, Finite 0, Finite 1) (Finite 3) =
     Finite (1 / 4)"
  using fresnel_normal_incidence[of "(Finite 0, Finite 0, Finite (- 1))"
      "(Finite 0, Finite 0, Finite 1)" 3]
  by (simp add: is_float32_def fsub_def float_eval)

lemma fresnel_glass:
  "fresnel (Finite 0, Finite 0, Finite (- 1)) (Finite 0, Finite 0, Finite 1) (Finite (3 / 2)) =
     Finite (10737419 / 268435456)"
  using fresnel_kr_normal[of "(Finite 0, Finite 0, Finite (- 1))"
      "(Finite 0, Finite 0, Finite 1)" "3 / 2"]
  by (simp add: is_float32_def fsub_def float_eval)

lemma fresnel_subnormal:
  "fresnel (Finite 0, Finite 0, Finite (- 1)) (Finite 0, Finite 0, Finite 1)
     (Finite (2 powi (- 149))) = Finite 1"
  using fresnel_kr_normal[of "(Finite 0, Finite 0, Finite (- 1))"
      "(Finite 0, Finite 0, Finite 1)" "2 powi (- 149)"]
  by (simp add: is_float32_def fsub_def float_eval)

subsection \<open>The clamp in fresnel\<close>

lemmas vec_eval = fresnel_cosi_def glm_clamp_def glm_min_def glm_max_def

lemma fresnel_cosi_unclamped_simple:
  "fresnel_cosi (Finite 2, Finite 0, Finite 0) (Finite (- 1), Finite 0, Finite 0) = Finite (- 2)"
  by (simp add: vec_eval float_eval)

text \<open>
  What the unclamped \<open>cosi\<close> does to the result, for an index of refraction of 1.5: the
  two inputs below, and the value for \<open>cosi = -1\<close>.
\<close>

lemma fresnel_unclamped_result:
  "fresnel (Finite (- (16276291 / 67108864)), Finite 0, Finite (- (16276291 / 16777216)))
           (Finite (16276291 / 67108864), Finite 0, Finite (16276291 / 16777216)) (Finite (3 / 2))
     = Finite (2684355 / 67108864)"
  "fresnel (Finite 2, Finite 0, Finite 0) (Finite (- 1), Finite 0, Finite 0) (Finite (3 / 2))
     = Finite (567087 / 4194304)"
  "fresnel_kr (Finite (- 1)) (Finite (3 / 2)) = Finite (10737419 / 268435456)"
  by (simp_all add: fresnel_def fresnel_kr_def fsub_def std_max_def vec_eval float_eval)

lemma glm_clamp_swapped: "glm_clamp (Finite (- 1)) (Finite 1) (Finite d) = Finite (min 1 d)"
  by (simp add: glm_clamp_def glm_min_def glm_max_def min_def)

lemma glm_clamp_intended: "glm_clamp (Finite d) (Finite (- 1)) (Finite 1) = Finite (min 1 (max (- 1) d))"
  by (simp add: glm_clamp_def glm_min_def glm_max_def min_def max_def)

text \<open>
  C1 does not hold of the source. \<open>glm::clamp\<close> takes the value first and the bounds
  after it, and the source passes \<open>-1, 1, dot(I, N)\<close>: the result is the minimum of 1 and
  the dot product, which is not bounded below. For the unit normal \<open>N\<close> that normalizing
  \<open>(1, 0, 4)\<close> in floats gives and \<open>I = -N\<close>, the float dot product is \<open>-1 - 2\<^sup>-\<^sup>2\<^sup>3\<close>, and
  that is the \<open>cosi\<close> the rest of \<open>fresnel\<close> works with, where the claim has \<open>-1\<close>.
\<close>

theorem fresnel_cosi_below_minus_one:
  "fresnel_cosi (Finite (- (16276291 / 67108864)), Finite 0, Finite (- (16276291 / 16777216)))
                (Finite (16276291 / 67108864), Finite 0, Finite (16276291 / 16777216))
     = Finite (- (8388609 / 8388608))"
  by (simp add: vec_eval float_eval)


subsection \<open>The range of haltonSequence\<close>

text \<open>
  C6 does not hold of the source. \<open>haltonSequence(0, b)\<close> is 0, but for a positive index the
  float sum can round up to 1 and beyond. At index \<open>2\<^sup>2\<^sup>5 - 1\<close> in base 2 every step is
  exact up to the last addition, whose exact value \<open>1 - 2\<^sup>-\<^sup>2\<^sup>5\<close> lies halfway between two
  floats: the sum returned is 1. At index \<open>13\<^sup>7 - 1\<close> in base 13 the rounding errors of the
  powers of \<open>1/13\<close> add up and the sum returned is \<open>1 + 2\<^sup>-\<^sup>2\<^sup>3\<close>. The lemma after the theorem
  reaches 1 in one iteration, through the conversion of the base 16777217 to float.
\<close>

theorem haltonSequence_reaches_one:
  "haltonSequence 33554431 2 = Some (Inr (Finite 1)) \<and>
   haltonSequence 62748516 13 = Some (Inr (Finite (8388609 / 8388608)))"
  by (simp add: haltonSequence_def haltonLoop.simps float_eval)

lemma haltonSequence_reaches_one_by_conversion:
  "haltonSequence 16777216 16777217 = Some (Inr (Finite 1))"
  by (simp add: haltonSequence_def haltonLoop.simps float_eval)

lemma haltonSequence_0: "haltonSequence 0 b = Some (Inr (Finite 0))"
  by (simp add: haltonSequence_def haltonLoop.simps)

lemma haltonSequence_5_3: "haltonSequence 5 3 = Some (Inr (Finite (6524473 / 8388608)))"
  by (simp add: haltonSequence_def haltonLoop.simps float_eval)

end
